theory Spec2Isabelle
  imports Main "HOL-Library.Sublist"
begin

section \<open>JavaScript strings\<close>

text \<open>
  The program is \<^verbatim>\<open>src/static/js/app.js\<close>, the class \<^verbatim>\<open>InstagramURLCleaner\<close>.
  A JavaScript string is modelled as a \<^typ>\<open>string\<close>, one \<^typ>\<open>char\<close> per code unit:
  the strings of code units U+0000 to U+00FF. The separator \<^verbatim>\<open>'/?'\<close>, the allow-list
  and every URL the development evaluates are ASCII.
\<close>

text \<open>
  \<^verbatim>\<open>s.indexOf(sep)\<close> as a cut of \<open>s\<close> at the first occurrence of \<open>sep\<close>: the text
  before the occurrence and the text after it, or \<open>None\<close> when \<open>sep\<close> does not occur.
\<close>

fun cut :: "string \<Rightarrow> string \<Rightarrow> (string \<times> string) option" where
  "cut sep [] = (if sep = [] then Some ([], []) else None)"
| "cut sep (c # cs) =
     (if prefix sep (c # cs) then Some ([], drop (length sep) (c # cs))
      else map_option (\<lambda>(a, b). (c # a, b)) (cut sep cs))"

text \<open>\<^verbatim>\<open>s.includes(sep)\<close>.\<close>

definition includes_str :: "string \<Rightarrow> string \<Rightarrow> bool" where
  "includes_str s sep = (cut sep s \<noteq> None)"

lemma cut_shorter:
  "cut sep s = Some (a, b) \<Longrightarrow> sep \<noteq> [] \<Longrightarrow> length b < length s"
proof (induction s arbitrary: a)
  case Nil
  then show ?case by simp
next
  case (Cons c cs)
  show ?case
  proof (cases "prefix sep (c # cs)")
    case True
    with Cons.prems show ?thesis by (cases sep) auto
  next
    case False
    with Cons.prems obtain a' where "cut sep cs = Some (a', b)"
      by (auto split: prod.splits)
    with Cons.IH Cons.prems(2) show ?thesis by fastforce
  qed
qed

text \<open>
  \<^verbatim>\<open>s.split(sep)\<close> for a string separator: the pieces between the successive
  occurrences of \<open>sep\<close>, found from left to right; the empty separator splits into
  single code units.
\<close>

function split_str :: "string \<Rightarrow> string \<Rightarrow> string list" where
  "split_str s sep =
     (if sep = [] then map (\<lambda>c. [c]) s
      else case cut sep s of
             None \<Rightarrow> [s]
           | Some (a, b) \<Rightarrow> a # split_str b sep)"
  by pat_completeness auto
termination
  by (relation "measure (\<lambda>(s, sep). length s)") (auto dest: cut_shorter)

declare split_str.simps [simp del]

text \<open>
  \<^verbatim>\<open>s.toLowerCase()\<close> on ASCII: the letters \<open>A\<close> to \<open>Z\<close> go to \<open>a\<close> to \<open>z\<close>, every
  other code unit stays. (JavaScript also lower-cases the letters U+00C0 to U+00DE;
  a string that holds one is in no list of ASCII names, lower-cased either way, and
  the URL Standard lower-cases ASCII letters only.)
\<close>

definition lower_char :: "char \<Rightarrow> char" where
  "lower_char c =
     (case map_of (zip ''ABCDEFGHIJKLMNOPQRSTUVWXYZ'' ''abcdefghijklmnopqrstuvwxyz'') c of
        Some d \<Rightarrow> d
      | None \<Rightarrow> c)"

definition toLowerCase :: "string \<Rightarrow> string" where
  "toLowerCase s = map lower_char s"

text \<open>
  \<^verbatim>\<open>s.trim()\<close>: the white space and line terminators of ECMAScript up to U+00FF are
  tab, line feed, vertical tab, form feed, carriage return, space and the no-break
  space U+00A0.
\<close>

definition is_space :: "char \<Rightarrow> bool" where
  "is_space c = (of_char c \<in> {9, 10, 11, 12, 13, 32, 160 :: nat})"

definition trim :: "string \<Rightarrow> string" where
  "trim s = rev (dropWhile is_space (rev (dropWhile is_space s)))"

section \<open>The URL object\<close>

text \<open>
  \<^verbatim>\<open>new URL(url)\<close> is the platform's constructor (the URL Standard), not code of
  this repository. The object it returns is a record of the getters; the constructor
  is a parameter \<open>URL\<close> of every function that calls it, \<open>None\<close> when it throws its
  \<^verbatim>\<open>TypeError\<close>.
\<close>

record url =
  protocol :: string
  username :: string
  password :: string
  hostname :: string
  port :: string
  pathname :: string
  search :: string
  hash :: string

type_synonym url_constructor = "string \<Rightarrow> url option"

section \<open>The cleaner\<close>

datatype exn = Error string

record CleaningResult =
  cleanUrl :: string
  removed :: string
  wasModified :: bool

definition validDomains :: "string list" where
  "validDomains =
     [''instagram.com'', ''www.instagram.com'', ''m.instagram.com'',
      ''instagr.am'', ''www.instagr.am'']"

text \<open>
  \<^verbatim>\<open>isValidInstagramUrl\<close>: the whole body is inside \<^verbatim>\<open>try\<close>, and the \<^verbatim>\<open>catch\<close>
  returns \<^verbatim>\<open>false\<close>.
\<close>

definition isValidInstagramUrl :: "url_constructor \<Rightarrow> string \<Rightarrow> bool" where
  "isValidInstagramUrl URL url =
     (case URL url of
        None \<Rightarrow> False
      | Some urlObj \<Rightarrow>
          (let hostname = toLowerCase (hostname urlObj)
           in hostname \<in> set validDomains))"

text \<open>
  \<^verbatim>\<open>cleanInstagramUrl\<close>. Everything thrown inside the \<^verbatim>\<open>try\<close> is replaced by
  \<^verbatim>\<open>new Error('Failed to parse URL')\<close>: the \<^verbatim>\<open>TypeError\<close> of the constructor, and
  the \<^verbatim>\<open>TypeError\<close> of \<^verbatim>\<open>originalParams.length\<close> should \<^verbatim>\<open>url.split('/?')[1]\<close> be
  \<^verbatim>\<open>undefined\<close>. An array read out of range is \<^verbatim>\<open>undefined\<close>, which the template
  literal prints as the text \<^verbatim>\<open>undefined\<close>.
\<close>

definition failed_to_parse :: exn where
  "failed_to_parse = Error ''Failed to parse URL''"

definition no_tracking :: string where
  "no_tracking = ''No tracking parameters found''"

definition cleanInstagramUrl :: "url_constructor \<Rightarrow> string \<Rightarrow> exn + CleaningResult" where
  "cleanInstagramUrl URL url =
     (case URL url of
        None \<Rightarrow> Inl failed_to_parse
      | Some urlObj \<Rightarrow>
          (let pathParts = split_str (pathname urlObj) ''/?'';
               cleanPath = (case pathParts of [] \<Rightarrow> ''undefined'' | p # _ \<Rightarrow> p);
               cleanUrl = protocol urlObj @ ''//'' @ hostname urlObj @ cleanPath;
               originalParams =
                 (if includes_str url ''/?''
                  then (case split_str url ''/?'' of _ # p # _ \<Rightarrow> Some p | _ \<Rightarrow> None)
                  else Some '''')
           in case originalParams of
                None \<Rightarrow> Inl failed_to_parse
              | Some originalParams \<Rightarrow>
                  (let removedContent =
                         (if originalParams \<noteq> [] then ''/?'' @ originalParams
                          else no_tracking)
                   in Inr \<lparr>cleanUrl = cleanUrl,
                           removed = removedContent,
                           wasModified = (length originalParams > 0)\<rparr>)))"

section \<open>The page\<close>

text \<open>
  The elements the cleaner writes to: the \<^verbatim>\<open>d-none\<close> class of the two alerts and of
  the results card, the text of the error message and of the removed parameters, the
  value of the cleaned URL field and its \<^verbatim>\<open>border-success\<close> class.
\<close>

record page =
  errorAlert_hidden :: bool
  successAlert_hidden :: bool
  errorMessage_text :: string
  resultsCard_hidden :: bool
  cleanedUrlInput_value :: string
  cleanedUrlInput_success :: bool
  removedParams_text :: string

definition hideAlerts :: "page \<Rightarrow> page" where
  "hideAlerts p = p\<lparr>errorAlert_hidden := True, successAlert_hidden := True\<rparr>"

definition hideResults :: "page \<Rightarrow> page" where
  "hideResults p = p\<lparr>resultsCard_hidden := True, cleanedUrlInput_success := False\<rparr>"

definition showError :: "string \<Rightarrow> page \<Rightarrow> page" where
  "showError message p = p\<lparr>errorMessage_text := message, errorAlert_hidden := False\<rparr>"

definition showResults :: "CleaningResult \<Rightarrow> page \<Rightarrow> page" where
  "showResults result p =
     (let p = p\<lparr>cleanedUrlInput_value := cleanUrl result,
                 removedParams_text := removed result,
                 resultsCard_hidden := False\<rparr>
      in if wasModified result then p\<lparr>cleanedUrlInput_success := True\<rparr>
         else p\<lparr>cleanedUrlInput_success := False,
                 removedParams_text := ''URL was already clean''\<rparr>)"

definition invalid_domain_message :: string where
  "invalid_domain_message =
     ''Please enter a valid Instagram URL (e.g., https://www.instagram.com/...)''"

definition malformed_url_message :: string where
  "malformed_url_message =
     ''Invalid URL format. Please check your Instagram URL and try again.''"

text \<open>
  \<^verbatim>\<open>validateAndCleanUrl\<close>: the page after the call, or the exception that leaves the
  method. \<^verbatim>\<open>!url\<close> holds of the empty string only.
\<close>

definition validateAndCleanUrl :: "url_constructor \<Rightarrow> page \<Rightarrow> string \<Rightarrow> exn + page" where
  "validateAndCleanUrl URL p url =
     (let p = hideAlerts p
      in if url = [] then Inr (hideResults p)
         else if \<not> isValidInstagramUrl URL url
         then Inr (hideResults (showError invalid_domain_message p))
         else (case cleanInstagramUrl URL url of
                 Inr result \<Rightarrow> Inr (showResults result p)
               | Inl error \<Rightarrow> Inr (hideResults (showError malformed_url_message p))))"

text \<open>
  The callers. \<^verbatim>\<open>handleUrlInput\<close> and \<^verbatim>\<open>handlePaste\<close> trim the field's value and
  call \<^verbatim>\<open>validateAndCleanUrl\<close> only when something is left; the debounced listener of
  \<^verbatim>\<open>setupRealTimeValidation\<close> passes the trimmed value whatever it is.
\<close>

definition handleUrlInput :: "url_constructor \<Rightarrow> page \<Rightarrow> string \<Rightarrow> exn + page" where
  "handleUrlInput URL p v =
     (let url = trim v
      in if url \<noteq> [] then validateAndCleanUrl URL p url else Inr (hideResults p))"

definition handlePaste :: "url_constructor \<Rightarrow> page \<Rightarrow> string \<Rightarrow> exn + page" where
  "handlePaste URL p v =
     (let url = trim v
      in if url \<noteq> [] then validateAndCleanUrl URL p url else Inr p)"

definition realTimeValidation :: "url_constructor \<Rightarrow> page \<Rightarrow> string \<Rightarrow> exn + page" where
  "realTimeValidation URL p v = validateAndCleanUrl URL p (trim v)"

section \<open>A reference parser\<close>

text \<open>
  The general theorems below are stated for every constructor \<open>URL\<close>. To evaluate
  the cleaner on concrete inputs, \<open>new_URL\<close> follows the basic URL parser of the URL
  Standard (no base URL, no state override): the stripping of the input, the scheme,
  the authority with its credentials and port, domains and opaque hosts, the path with
  its dot segments, UTF-8 percent-encoding and the drive letters of \<^verbatim>\<open>file:\<close>, the
  opaque path, the query and the fragment. It answers \<open>None\<close> where the Standard's
  parser fails, and also for the hosts it does not cover: IPv6 literals, IPv4 numbers,
  and domains that need IDNA (code units above U+007F, \<^verbatim>\<open>xn--\<close> labels).
\<close>

definition is_alpha :: "char \<Rightarrow> bool" where
  "is_alpha c =
     (c \<in> set ''abcdefghijklmnopqrstuvwxyzABCDEFGHIJKLMNOPQRSTUVWXYZ'')"

definition is_digit :: "char \<Rightarrow> bool" where
  "is_digit c = (c \<in> set ''0123456789'')"

definition is_hex_digit :: "char \<Rightarrow> bool" where
  "is_hex_digit c = (c \<in> set ''0123456789abcdefABCDEF'')"

definition is_scheme_char :: "char \<Rightarrow> bool" where
  "is_scheme_char c = (is_alpha c \<or> is_digit c \<or> c \<in> set ''+-.'')"

definition c0_or_space :: "char \<Rightarrow> bool" where
  "c0_or_space c = (of_char c \<le> (32 :: nat))"

definition tab_or_newline :: "char \<Rightarrow> bool" where
  "tab_or_newline c = (of_char c \<in> {9, 10, 13 :: nat})"

text \<open>Leading and trailing C0 controls and spaces go, then every tab and newline.\<close>

definition strip_input :: "string \<Rightarrow> string" where
  "strip_input s =
     filter (\<lambda>c. \<not> tab_or_newline c)
       (rev (dropWhile c0_or_space (rev (dropWhile c0_or_space s))))"

subsection \<open>Percent-encoding\<close>

definition c0_control_set :: "char \<Rightarrow> bool" where
  "c0_control_set c = (of_char c < (32 :: nat) \<or> of_char c > (126 :: nat))"

definition fragment_set :: "char \<Rightarrow> bool" where
  "fragment_set c = (c0_control_set c \<or> c \<in> set '' \"<>`'')"

definition query_set :: "char \<Rightarrow> bool" where
  "query_set c = (c0_control_set c \<or> c \<in> set '' \"#<>'')"

definition special_query_set :: "char \<Rightarrow> bool" where
  "special_query_set c = (query_set c \<or> c = CHR 0x27)"

definition path_set :: "char \<Rightarrow> bool" where
  "path_set c = (query_set c \<or> c \<in> set ''?^`{}'')"

definition userinfo_set :: "char \<Rightarrow> bool" where
  "userinfo_set c = (path_set c \<or> c \<in> set ''/:;=@[]|'' \<or> c = CHR 0x5C)"

definition hex_digit :: "nat \<Rightarrow> char" where
  "hex_digit k = ''0123456789ABCDEF'' ! (k mod 16)"

text \<open>
  The UTF-8 bytes of a code unit: itself up to U+007F, two bytes from U+0080 to
  U+00FF.
\<close>

definition utf8 :: "char \<Rightarrow> nat list" where
  "utf8 c =
     (if of_char c < (128 :: nat) then [of_char c]
      else [192 + of_char c div 64, 128 + of_char c mod 64])"

definition percent_byte :: "nat \<Rightarrow> string" where
  "percent_byte b = [CHR ''%'', hex_digit (b div 16), hex_digit b]"

text \<open>UTF-8 percent-encode a code unit using a percent-encode set.\<close>

definition percent_encode :: "(char \<Rightarrow> bool) \<Rightarrow> char \<Rightarrow> string" where
  "percent_encode S c = (if S c then concat (map percent_byte (utf8 c)) else [c])"

definition encode_str :: "(char \<Rightarrow> bool) \<Rightarrow> string \<Rightarrow> string" where
  "encode_str S s = concat (map (percent_encode S) s)"

definition hex_value :: "char \<Rightarrow> nat" where
  "hex_value c =
     (case map_of (zip ''0123456789abcdefABCDEF''
                       [0, 1, 2, 3, 4, 5, 6, 7, 8, 9, 10, 11, 12, 13, 14, 15,
                        10, 11, 12, 13, 14, 15]) c of
        Some v \<Rightarrow> v
      | None \<Rightarrow> 0)"

fun percent_decode :: "string \<Rightarrow> string" where
  "percent_decode (c # h # l # cs) =
     (if c = CHR ''%'' \<and> is_hex_digit h \<and> is_hex_digit l
      then char_of (16 * hex_value h + hex_value l) # percent_decode cs
      else c # percent_decode (h # l # cs))"
| "percent_decode cs = cs"

subsection \<open>Schemes\<close>

definition special_schemes :: "string list" where
  "special_schemes = [''ftp'', ''file'', ''http'', ''https'', ''ws'', ''wss'']"

definition is_special :: "string \<Rightarrow> bool" where
  "is_special scheme = (scheme \<in> set special_schemes)"

definition default_port :: "string \<Rightarrow> int option" where
  "default_port scheme =
     map_of [(''ftp'', 21), (''http'', 80), (''https'', 443), (''ws'', 80), (''wss'', 443)]
       scheme"

text \<open>
  Scheme start state and scheme state: a letter, then letters, digits, \<open>+\<close>, \<open>-\<close> and
  \<open>.\<close>, then the colon; anything else is a failure, there being no base URL.
\<close>

definition parse_scheme :: "string \<Rightarrow> (string \<times> string) option" where
  "parse_scheme s =
     (case s of
        [] \<Rightarrow> None
      | c # cs \<Rightarrow>
          if \<not> is_alpha c then None
          else (case dropWhile is_scheme_char cs of
                  [] \<Rightarrow> None
                | d # rest \<Rightarrow>
                    if d = CHR '':''
                    then Some (toLowerCase (c # takeWhile is_scheme_char cs), rest)
                    else None))"

subsection \<open>Hosts\<close>

definition forbidden_host :: "char \<Rightarrow> bool" where
  "forbidden_host c =
     (of_char c \<in> {0, 9, 10, 13 :: nat} \<or> c \<in> set '' #/:<>?@[]^|'' \<or> c = CHR 0x5C)"

definition forbidden_domain :: "char \<Rightarrow> bool" where
  "forbidden_domain c =
     (forbidden_host c \<or> of_char c \<le> (31 :: nat) \<or> c = CHR ''%'' \<or> of_char c = (127 :: nat))"

text \<open>The labels of a domain: the pieces between its dots.\<close>

fun labels :: "string \<Rightarrow> string list" where
  "labels [] = [[]]"
| "labels (c # cs) =
     (if c = CHR ''.'' then [] # labels cs
      else (case labels cs of [] \<Rightarrow> [[c]] | l # ls \<Rightarrow> (c # l) # ls))"

definition numeric_label :: "string \<Rightarrow> bool" where
  "numeric_label l =
     ((l \<noteq> [] \<and> list_all is_digit l) \<or>
      (prefix ''0x'' (toLowerCase l) \<and> list_all is_hex_digit (drop 2 l)))"

definition ends_in_a_number :: "string \<Rightarrow> bool" where
  "ends_in_a_number d =
     (let parts = labels d;
          parts = (if last parts = [] then butlast parts else parts)
      in parts \<noteq> [] \<and> numeric_label (last parts))"

text \<open>
  The host parser for a special scheme: percent-decode, domain to ASCII (on ASCII:
  lower-casing), the forbidden domain code points.
\<close>

definition parse_domain :: "string \<Rightarrow> string option" where
  "parse_domain input =
     (let domain = percent_decode input;
          asciiDomain = toLowerCase domain
      in if \<exists>c \<in> set domain. of_char c > (127 :: nat) then None
         else if \<exists>l \<in> set (labels asciiDomain). prefix ''xn--'' l then None
         else if asciiDomain = [] \<or> (\<exists>c \<in> set asciiDomain. forbidden_domain c) then None
         else if ends_in_a_number asciiDomain then None
         else Some asciiDomain)"

text \<open>The opaque-host parser of the other schemes keeps the case.\<close>

definition parse_opaque_host :: "string \<Rightarrow> string option" where
  "parse_opaque_host input =
     (if \<exists>c \<in> set input. forbidden_host c then None
      else Some (encode_str c0_control_set input))"

definition parse_host :: "bool \<Rightarrow> string \<Rightarrow> string option" where
  "parse_host special input =
     (if CHR ''['' \<in> set input \<or> CHR '']'' \<in> set input then None
      else if special then parse_domain input
      else parse_opaque_host input)"

subsection \<open>Ports\<close>

definition digit_value :: "char \<Rightarrow> int" where
  "digit_value c = int (hex_value c)"

definition decimal :: "string \<Rightarrow> int" where
  "decimal ds = foldl (\<lambda>a c. 10 * a + digit_value c) 0 ds"

text \<open>
  The port state: digits only, at most 65535; the scheme's default port and the empty
  port are serialised as the empty string, any other without leading zeros.
\<close>

definition parse_port :: "string \<Rightarrow> string \<Rightarrow> string option" where
  "parse_port scheme ds =
     (if \<not> list_all is_digit ds then None
      else if ds = [] then Some []
      else if decimal ds > 65535 then None
      else if default_port scheme = Some (decimal ds) then Some []
      else (case dropWhile (\<lambda>c. c = CHR ''0'') ds of
              [] \<Rightarrow> Some ''0''
            | d # ds' \<Rightarrow> Some (d # ds')))"

subsection \<open>Paths\<close>

definition single_dot :: "string \<Rightarrow> bool" where
  "single_dot b = (toLowerCase b \<in> set [''.'', ''%2e''])"

definition double_dot :: "string \<Rightarrow> bool" where
  "double_dot b = (toLowerCase b \<in> set [''..'', ''.%2e'', ''%2e.'', ''%2e%2e''])"

definition windows_drive_letter :: "string \<Rightarrow> bool" where
  "windows_drive_letter b =
     (case b of [a, c] \<Rightarrow> is_alpha a \<and> (c = CHR '':'' \<or> c = CHR ''|'') | _ \<Rightarrow> False)"

definition normalized_drive_letter :: "string \<Rightarrow> bool" where
  "normalized_drive_letter b =
     (case b of [a, c] \<Rightarrow> is_alpha a \<and> c = CHR '':'' | _ \<Rightarrow> False)"

definition shorten :: "bool \<Rightarrow> string list \<Rightarrow> string list" where
  "shorten file path =
     (if file \<and> length path = 1 \<and> normalized_drive_letter (hd path) then path
      else butlast path)"

text \<open>
  What the path state does with its buffer at the end of a segment; \<open>slash\<close> tells
  whether the segment ended at a slash (a backslash too, for a special scheme).
\<close>

definition end_segment :: "bool \<Rightarrow> string list \<Rightarrow> string \<Rightarrow> bool \<Rightarrow> string list" where
  "end_segment file path buffer slash =
     (if double_dot buffer
      then (if slash then shorten file path else shorten file path @ [[]])
      else if single_dot buffer
      then (if slash then path else path @ [[]])
      else path @ [if file \<and> path = [] \<and> windows_drive_letter buffer
                   then [hd buffer, CHR '':''] else buffer])"

definition is_slash :: "bool \<Rightarrow> char \<Rightarrow> bool" where
  "is_slash special c = (c = CHR ''/'' \<or> (special \<and> c = CHR 0x5C))"

text \<open>
  The path state: the path so far, the buffer and the input left; the result is the
  path and what is left of the input, from its \<open>?\<close> or \<open>#\<close> on. The path
  percent-encode set is the parameter \<open>E\<close>: the Standard's is \<open>path_set\<close>, and an
  implementation from before \<open>^\<close> was added to it has a smaller one.
\<close>

fun path_state ::
  "(char \<Rightarrow> bool) \<Rightarrow> bool \<Rightarrow> bool \<Rightarrow> string list \<Rightarrow> string \<Rightarrow> string \<Rightarrow>
   string list \<times> string" where
  "path_state E special file path buffer [] = (end_segment file path buffer False, [])"
| "path_state E special file path buffer (c # cs) =
     (if is_slash special c
      then path_state E special file (end_segment file path buffer True) [] cs
      else if c = CHR ''?'' \<or> c = CHR ''#''
      then (end_segment file path buffer False, c # cs)
      else path_state E special file path (buffer @ percent_encode E c) cs)"

text \<open>
  The path start state. A special scheme always enters the path state, past one
  leading slash; another scheme enters it only when something other than \<open>?\<close> or
  \<open>#\<close> is left, and keeps the empty path otherwise.
\<close>

definition path_start ::
  "(char \<Rightarrow> bool) \<Rightarrow> bool \<Rightarrow> bool \<Rightarrow> string \<Rightarrow> string list \<times> string" where
  "path_start E special file input =
     (case input of
        [] \<Rightarrow> (if special then path_state E special file [] [] [] else ([], []))
      | c # cs \<Rightarrow>
          if special
          then path_state E special file [] [] (if is_slash special c then cs else c # cs)
          else if c = CHR ''?'' \<or> c = CHR ''#'' then ([], c # cs)
          else path_state E special file [] [] (if c = CHR ''/'' then cs else c # cs))"

definition serialize_path :: "string list \<Rightarrow> string" where
  "serialize_path path = concat (map (\<lambda>segment. CHR ''/'' # segment) path)"

subsection \<open>Query and fragment\<close>

text \<open>
  From the \<open>?\<close> or \<open>#\<close> where the path ended: the \<^verbatim>\<open>search\<close> and \<^verbatim>\<open>hash\<close> getters,
  each empty when its component is absent or empty.
\<close>

definition query_fragment :: "bool \<Rightarrow> string \<Rightarrow> string \<times> string" where
  "query_fragment special input =
     (let q = (if input \<noteq> [] \<and> hd input = CHR ''?''
               then takeWhile (\<lambda>c. c \<noteq> CHR ''#'') (tl input) else []);
          f = tl (dropWhile (\<lambda>c. c \<noteq> CHR ''#'') input);
          query = encode_str (if special then special_query_set else query_set) q;
          fragment = encode_str fragment_set f
      in (if query = [] then [] else CHR ''?'' # query,
          if fragment = [] then [] else CHR ''#'' # fragment))"

subsection \<open>Authority\<close>

definition ends_authority :: "bool \<Rightarrow> char \<Rightarrow> bool" where
  "ends_authority special c = (is_slash special c \<or> c = CHR ''?'' \<or> c = CHR ''#'')"

text \<open>The text before the last \<open>@\<close> and the text after it.\<close>

definition split_credentials :: "string \<Rightarrow> (string \<times> string) option" where
  "split_credentials authority =
     (if CHR ''@'' \<in> set authority
      then Some (rev (tl (dropWhile (\<lambda>c. c \<noteq> CHR ''@'') (rev authority))),
                 rev (takeWhile (\<lambda>c. c \<noteq> CHR ''@'') (rev authority)))
      else None)"

definition make_url ::
  "string \<Rightarrow> string \<Rightarrow> string \<Rightarrow> string \<Rightarrow> string \<Rightarrow> string \<Rightarrow> string \<Rightarrow> url" where
  "make_url scheme user pass host prt path rest =
     \<lparr>protocol = scheme @ '':'', username = user, password = pass, hostname = host,
      port = prt, pathname = path,
      search = fst (query_fragment (is_special scheme) rest),
      hash = snd (query_fragment (is_special scheme) rest)\<rparr>"

text \<open>
  Authority state, host state and port state, on the input after the slashes: the
  authority runs to the first \<open>/\<close>, \<open>?\<close> or \<open>#\<close> (or backslash, for a special scheme);
  credentials before its last \<open>@\<close>, with the first colon between user name and
  password; then the host, and the port after its colon.
\<close>

definition authority_state :: "(char \<Rightarrow> bool) \<Rightarrow> string \<Rightarrow> string \<Rightarrow> url option" where
  "authority_state E scheme input =
     (let special = is_special scheme;
          authority = takeWhile (\<lambda>c. \<not> ends_authority special c) input;
          rest = dropWhile (\<lambda>c. \<not> ends_authority special c) input;
          (credentials, hostport) =
            (case split_credentials authority of
               None \<Rightarrow> ([], authority)
             | Some (cr, hp) \<Rightarrow> (cr, hp));
          user = encode_str userinfo_set (takeWhile (\<lambda>c. c \<noteq> CHR '':'') credentials);
          pass = encode_str userinfo_set (drop 1 (dropWhile (\<lambda>c. c \<noteq> CHR '':'') credentials));
          host = takeWhile (\<lambda>c. c \<noteq> CHR '':'') hostport;
          colon = dropWhile (\<lambda>c. c \<noteq> CHR '':'') hostport
      in if CHR ''@'' \<in> set authority \<and> hostport = [] then None
         else if host = [] \<and> (special \<or> colon \<noteq> []) then None
         else (case parse_host special host of
                 None \<Rightarrow> None
               | Some h \<Rightarrow>
                   (case parse_port scheme (drop 1 colon) of
                      None \<Rightarrow> None
                    | Some prt \<Rightarrow>
                        (let (path, rest') = path_start E special False rest
                         in Some (make_url scheme user pass h prt
                                    (serialize_path path) rest')))))"

subsection \<open>The \<^verbatim>\<open>file:\<close> scheme\<close>

definition ends_file_host :: "char \<Rightarrow> bool" where
  "ends_file_host c = ends_authority True c"

text \<open>
  File state, file slash state and file host state, on the input after \<^verbatim>\<open>file:\<close>. A
  host that is a Windows drive letter is no host: it stays in the buffer, for the path
  state.
\<close>

definition file_path :: "string \<Rightarrow> string list \<times> string \<Rightarrow> url option" where
  "file_path host pr = Some (make_url ''file'' [] [] host [] (serialize_path (fst pr)) (snd pr))"

definition file_state :: "(char \<Rightarrow> bool) \<Rightarrow> string \<Rightarrow> url option" where
  "file_state E input =
     (case input of
        [] \<Rightarrow> file_path [] (path_state E True True [] [] [])
      | c # cs \<Rightarrow>
          if \<not> is_slash True c then file_path [] (path_state E True True [] [] (c # cs))
          else (case cs of
                  [] \<Rightarrow> file_path [] (path_state E True True [] [] [])
                | d # ds \<Rightarrow>
                    if \<not> is_slash True d
                    then file_path [] (path_state E True True [] [] (d # ds))
                    else (let buffer = takeWhile (\<lambda>c. \<not> ends_file_host c) ds;
                              rest = dropWhile (\<lambda>c. \<not> ends_file_host c) ds
                          in if windows_drive_letter buffer
                             then file_path [] (path_state E True True [] buffer rest)
                             else if buffer = []
                             then file_path [] (path_start E True True rest)
                             else (case parse_host True buffer of
                                     None \<Rightarrow> None
                                   | Some h \<Rightarrow>
                                       file_path (if h = ''localhost'' then [] else h)
                                         (path_start E True True rest)))))"

subsection \<open>The opaque path\<close>

text \<open>
  A scheme that is not special, with no slash after its colon: the path is one string,
  up to the first \<open>?\<close> or \<open>#\<close>; a space just before that \<open>?\<close> or \<open>#\<close> is encoded.
\<close>

fun opaque_path_state :: "string \<Rightarrow> string \<times> string" where
  "opaque_path_state [] = ([], [])"
| "opaque_path_state (c # cs) =
     (if c = CHR ''?'' \<or> c = CHR ''#'' then ([], c # cs)
      else (let (path, rest) = opaque_path_state cs
            in ((if c = CHR '' '' \<and> path = [] \<and> rest \<noteq> [] then ''%20''
                 else percent_encode c0_control_set c) @ path, rest)))"

subsection \<open>The parser\<close>

text \<open>The basic URL parser, for a path percent-encode set \<open>E\<close>.\<close>

definition parse_URL :: "(char \<Rightarrow> bool) \<Rightarrow> url_constructor" where
  "parse_URL E input =
     (case parse_scheme (strip_input input) of
        None \<Rightarrow> None
      | Some (scheme, rest) \<Rightarrow>
          if scheme = ''file'' then file_state E rest
          else if is_special scheme
          then authority_state E scheme (dropWhile (is_slash True) rest)
          else (case rest of
                  [] \<Rightarrow> Some (make_url scheme [] [] [] [] [] [])
                | c # cs \<Rightarrow>
                    if c \<noteq> CHR ''/''
                    then (let (path, rest') = opaque_path_state (c # cs)
                          in Some (make_url scheme [] [] [] [] path rest'))
                    else (case cs of
                            [] \<Rightarrow> Some (make_url scheme [] [] [] [] ''/'' [])
                          | d # ds \<Rightarrow>
                              if d = CHR ''/'' then authority_state E scheme ds
                              else (let (path, rest') = path_state E False False [] [] (d # ds)
                                    in Some (make_url scheme [] [] [] []
                                               (serialize_path path) rest')))))"

text \<open>The reference parser: the basic URL parser with the Standard's sets.\<close>

definition new_URL :: url_constructor where
  "new_URL = parse_URL path_set"

section \<open>Serialised URLs\<close>

text \<open>
  What the URL Standard guarantees of the getters of a parsed URL, as far as the
  cleaner is concerned, for a constructor whose path percent-encode set is \<open>E\<close>. The
  protocol is a scheme in lower case and a colon. The host of a special scheme is in
  lower case. The path of a URL with a host is a list of segments, each written after
  a slash: a segment is made of plain characters, those that the path state copies
  as they are (no character of \<open>E\<close>, no C0 control or space, no slash, no backslash
  either for a special scheme, no \<open>?\<close> and no \<open>#\<close>), and is no dot segment; a special
  scheme has at least one segment; and a drive letter that leads a \<^verbatim>\<open>file:\<close> path is
  written with its colon.
\<close>

definition plain_char :: "(char \<Rightarrow> bool) \<Rightarrow> bool \<Rightarrow> char \<Rightarrow> bool" where
  "plain_char E special c =
     (\<not> E c \<and> \<not> c0_or_space c \<and> \<not> is_slash special c \<and> c \<noteq> CHR ''?'' \<and> c \<noteq> CHR ''#'')"

definition segment_ok :: "(char \<Rightarrow> bool) \<Rightarrow> bool \<Rightarrow> string \<Rightarrow> bool" where
  "segment_ok E special segment =
     (list_all (plain_char E special) segment \<and> \<not> single_dot segment \<and>
      \<not> double_dot segment)"

definition scheme_ok :: "string \<Rightarrow> bool" where
  "scheme_ok scheme =
     (scheme \<noteq> [] \<and> is_alpha (hd scheme) \<and> list_all is_scheme_char scheme \<and>
      toLowerCase scheme = scheme)"

definition path_ok :: "(char \<Rightarrow> bool) \<Rightarrow> string \<Rightarrow> string list \<Rightarrow> bool" where
  "path_ok E scheme path =
     (list_all (segment_ok E (is_special scheme)) path \<and>
      (is_special scheme \<longrightarrow> path \<noteq> []) \<and>
      (scheme = ''file'' \<and> path \<noteq> [] \<and> windows_drive_letter (hd path) \<longrightarrow>
         normalized_drive_letter (hd path)))"

definition serialised :: "(char \<Rightarrow> bool) \<Rightarrow> url \<Rightarrow> bool" where
  "serialised E u =
     (\<exists>scheme. protocol u = scheme @ '':'' \<and> scheme_ok scheme \<and>
        (is_special scheme \<longrightarrow> toLowerCase (hostname u) = hostname u) \<and>
        (hostname u \<noteq> [] \<longrightarrow>
           (\<exists>path. pathname u = serialize_path path \<and> path_ok E scheme path)))"

text \<open>The hosts that \<^verbatim>\<open>isValidInstagramUrl\<close> accepts are made of letters and dots.\<close>

definition host_char :: "char \<Rightarrow> bool" where
  "host_char c = (is_alpha c \<or> c = CHR ''.'')"

text \<open>
  The clean form of a parsed URL: what \<^verbatim>\<open>cleanInstagramUrl\<close> assembles when the path
  has no \<^verbatim>\<open>/?\<close>.
\<close>

definition clean_form :: "url \<Rightarrow> string" where
  "clean_form u = protocol u @ ''//'' @ hostname u @ pathname u"

text \<open>
  Two properties of a constructor with the path percent-encode set \<open>E\<close>, both about
  the URLs it returns with an allow-listed host: it parses the clean form of such a
  URL as the basic URL parser does, to the same protocol, host name and path; and such
  a URL is serialised.
\<close>

definition agrees_on_clean_urls :: "(char \<Rightarrow> bool) \<Rightarrow> url_constructor \<Rightarrow> bool" where
  "agrees_on_clean_urls E URL =
     (\<forall>s u r. URL s = Some u \<and> toLowerCase (hostname u) \<in> set validDomains \<and>
          parse_URL E (clean_form u) = Some r \<longrightarrow>
        (\<exists>y. URL (clean_form u) = Some y \<and> protocol y = protocol r \<and>
             hostname y = hostname r \<and> pathname y = pathname r))"

definition returns_serialised :: "(char \<Rightarrow> bool) \<Rightarrow> url_constructor \<Rightarrow> bool" where
  "returns_serialised E URL =
     (\<forall>s u. URL s = Some u \<and> toLowerCase (hostname u) \<in> set validDomains \<longrightarrow>
        serialised E u)"

text \<open>
  A path percent-encode set is admissible when it holds the C0 controls and the space,
  and leaves letters, hexadecimal digits, \<open>%\<close> and \<open>:\<close> alone. The Standard's set
  is \<open>path_set\<close>; before \<open>^\<close> was added to it, it was \<open>legacy_path_set\<close>.
\<close>

definition admissible :: "(char \<Rightarrow> bool) \<Rightarrow> bool" where
  "admissible E =
     ((\<forall>c. c0_or_space c \<longrightarrow> E c) \<and>
      (\<forall>c. is_alpha c \<or> is_hex_digit c \<or> c = CHR ''%'' \<or> c = CHR '':'' \<longrightarrow> \<not> E c))"

definition legacy_path_set :: "char \<Rightarrow> bool" where
  "legacy_path_set c = (query_set c \<or> c \<in> set ''?`{}'')"

text \<open>A page with both alerts and the results card hidden, to run the methods on.\<close>

definition blank_page :: page where
  "blank_page =
     \<lparr>errorAlert_hidden = True, successAlert_hidden = True, errorMessage_text = [],
      resultsCard_hidden = True, cleanedUrlInput_value = [],
      cleanedUrlInput_success = False, removedParams_text = []\<rparr>"

section \<open>Facts about the string operations\<close>

lemma cut_append: "cut sep s = Some (a, b) \<Longrightarrow> s = a @ sep @ b"
proof (induction s arbitrary: a)
  case Nil
  then show ?case by (simp split: if_splits)
next
  case (Cons c cs)
  show ?case
  proof (cases "prefix sep (c # cs)")
    case True
    with Cons.prems have "a = []" "b = drop (length sep) (c # cs)" by auto
    with True show ?thesis by (auto simp: prefix_def)
  next
    case False
    with Cons.prems obtain a' where "cut sep cs = Some (a', b)" "a = c # a'"
      by (auto split: prod.splits)
    with Cons.IH show ?thesis by simp
  qed
qed

lemma cut_occurrence: "cut sep (a @ sep @ b) \<noteq> None"
proof (induction a)
  case Nil
  show ?case
  proof (cases "sep @ b")
    case Nil
    then show ?thesis by simp
  next
    case (Cons c cs)
    then have "prefix sep (c # cs)" by (metis prefixI)
    with Cons show ?thesis by simp
  qed
next
  case (Cons c a)
  then show ?case by auto
qed

text \<open>\<open>includes_str\<close> is the substring test.\<close>

lemma includes_str_iff: "includes_str s sep \<longleftrightarrow> (\<exists>a b. s = a @ sep @ b)"
  unfolding includes_str_def
  using cut_append cut_occurrence by (metis not_None_eq surj_pair)

lemma split_str_pieces:
  "sep \<noteq> [] \<Longrightarrow> split_str s sep =
     (case cut sep s of None \<Rightarrow> [s] | Some (a, b) \<Rightarrow> a # split_str b sep)"
  by (subst split_str.simps) simp

lemma split_str_first:
  "sep \<noteq> [] \<Longrightarrow> \<exists>p ps. split_str s sep = p # ps"
  by (subst split_str.simps) (simp split: option.splits prod.splits)

lemma split_str_second:
  "sep \<noteq> [] \<Longrightarrow> includes_str s sep \<Longrightarrow> \<exists>a p ps. split_str s sep = a # p # ps"
proof -
  assume sep: "sep \<noteq> []" and "includes_str s sep"
  then obtain a b where c: "cut sep s = Some (a, b)"
    by (auto simp: includes_str_def)
  from split_str_first [OF sep, of b] obtain p ps where "split_str b sep = p # ps" by blast
  with c sep show ?thesis by (simp add: split_str_pieces)
qed

lemma split_str_no_occurrence:
  "sep \<noteq> [] \<Longrightarrow> \<not> includes_str s sep \<Longrightarrow> split_str s sep = [s]"
  by (cases "cut sep s") (auto simp: split_str_pieces includes_str_def)

text \<open>
  The first occurrence of \<^verbatim>\<open>/?\<close> in \<open>a @ ''/?'' @ b\<close> is the one written, when there
  is none in \<open>a\<close> followed by the slash.
\<close>

lemma cut_first:
  "\<not> includes_str (a @ ''/'') ''/?'' \<Longrightarrow> cut ''/?'' (a @ ''/?'' @ b) = Some (a, b)"
proof (induction a)
  case Nil
  show ?case by simp
next
  case (Cons c a)
  from Cons.prems have 1: "\<not> prefix ''/?'' (c # a @ ''/'')"
    by (auto simp: includes_str_def)
  then have 2: "\<not> prefix ''/?'' (c # a @ ''/?'' @ b)"
    by (cases a) auto
  from Cons.prems 1 have "\<not> includes_str (a @ ''/'') ''/?''"
    by (auto simp: includes_str_def)
  with Cons.IH 2 show ?case by simp
qed

lemma includes_str_set: "includes_str s sep \<Longrightarrow> set sep \<subseteq> set s"
  by (auto simp: includes_str_iff)

lemma split_str_head_first:
  "\<not> includes_str (a @ ''/'') ''/?'' \<Longrightarrow> hd (split_str (a @ ''/?'' @ b) ''/?'') = a"
  using cut_first [of a b] by (subst split_str.simps) simp

lemma no_mark_no_separator: "CHR ''?'' \<notin> set s \<Longrightarrow> \<not> includes_str s ''/?''"
  using includes_str_set [of s "''/?''"] by auto

text \<open>The result depends on the protocol, host name and path of the parse only.\<close>

lemma clean_frame:
  "URL s = Some u \<Longrightarrow> URL' s = Some u' \<Longrightarrow> protocol u' = protocol u \<Longrightarrow>
   hostname u' = hostname u \<Longrightarrow> pathname u' = pathname u \<Longrightarrow>
   cleanInstagramUrl URL' s = cleanInstagramUrl URL s"
  by (simp add: cleanInstagramUrl_def)

lemma all_space_trim: "list_all is_space v \<Longrightarrow> trim v = []"
  by (auto simp: trim_def list_all_iff dest: set_dropWhileD)

section \<open>What \<^verbatim>\<open>cleanInstagramUrl\<close> returns\<close>

text \<open>
  On a string that parses, the method returns a result, built from the parsed
  protocol, host name and path and from the second piece of the raw string split at
  \<^verbatim>\<open>/?\<close>; the reads \<^verbatim>\<open>pathParts[0]\<close> and \<^verbatim>\<open>url.split('/?')[1]\<close> are in range.
\<close>

lemma clean_parsed:
  assumes "URL s = Some u"
  shows "\<exists>p. cleanInstagramUrl URL s =
           Inr \<lparr>cleanUrl = protocol u @ ''//'' @ hostname u @ hd (split_str (pathname u) ''/?''),
                removed = (if p \<noteq> [] then ''/?'' @ p else no_tracking),
                wasModified = (p \<noteq> [])\<rparr> \<and>
           p = (if includes_str s ''/?'' then hd (tl (split_str s ''/?'')) else [])"
proof -
  obtain q qs where q: "split_str (pathname u) ''/?'' = q # qs"
    using split_str_first [of "''/?''" "pathname u"] by auto
  show ?thesis
  proof (cases "includes_str s ''/?''")
    case True
    then obtain a p ps where "split_str s ''/?'' = a # p # ps"
      using split_str_second [of "''/?''" s] by auto
    with assms q True show ?thesis
      by (simp add: cleanInstagramUrl_def)
  next
    case False
    with assms q show ?thesis
      by (simp add: cleanInstagramUrl_def)
  qed
qed

lemma clean_unparsed: "URL s = None \<Longrightarrow> cleanInstagramUrl URL s = Inl failed_to_parse"
  by (simp add: cleanInstagramUrl_def)

lemma valid_parsed: "isValidInstagramUrl URL s \<Longrightarrow> \<exists>u. URL s = Some u"
  by (auto simp: isValidInstagramUrl_def split: option.splits)

lemma valid_cleaned: "isValidInstagramUrl URL s \<Longrightarrow> \<exists>r. cleanInstagramUrl URL s = Inr r"
proof -
  assume "isValidInstagramUrl URL s"
  then obtain u where "URL s = Some u" using valid_parsed by blast
  with clean_parsed [of URL s u] show ?thesis by blast
qed

section \<open>The reference parser on serialised URLs\<close>

text \<open>Lower-casing keeps letters letters and scheme characters scheme characters.\<close>

lemma lower_char_alpha: "is_alpha (lower_char c) = is_alpha c"
  by (auto simp: lower_char_def is_alpha_def)

lemma lower_char_idem: "lower_char (lower_char c) = lower_char c"
  by (auto simp: lower_char_def)

lemma lower_char_scheme: "is_scheme_char (lower_char c) = is_scheme_char c"
  by (auto simp: lower_char_def is_scheme_char_def is_alpha_def is_digit_def)

lemma lower_char_dot: "lower_char c = CHR ''.'' \<longleftrightarrow> c = CHR ''.''"
  by (auto simp: lower_char_def)

lemma of_char_space: "of_char c = (32 :: nat) \<Longrightarrow> c = CHR '' ''"
proof -
  assume "of_char c = (32 :: nat)"
  then have "of_char c = (of_char (CHR '' '') :: nat)" by simp
  then show ?thesis by (simp only: of_char_eq_iff)
qed

text \<open>Characters that the stripping of the input leaves alone.\<close>

lemma alpha_visible: "is_alpha c \<Longrightarrow> \<not> c0_or_space c"
  by (auto simp: is_alpha_def c0_or_space_def)

lemma scheme_char_visible: "is_scheme_char c \<Longrightarrow> \<not> c0_or_space c"
  by (auto simp: is_scheme_char_def is_alpha_def is_digit_def c0_or_space_def)

lemma plain_visible: "plain_char E special c \<Longrightarrow> \<not> c0_or_space c"
  by (simp add: plain_char_def)

lemma strip_input_visible:
  assumes "\<forall>c \<in> set s. \<not> c0_or_space c"
  shows "strip_input s = s"
proof -
  from assms have "dropWhile c0_or_space s = s"
    by (cases s) auto
  moreover from assms have "dropWhile c0_or_space (rev s) = rev s"
    by (cases "rev s") (auto simp: dropWhile_eq_self_iff)
  moreover from assms have "filter (\<lambda>c. \<not> tab_or_newline c) s = s"
    by (auto simp: filter_id_conv tab_or_newline_def c0_or_space_def)
  ultimately show ?thesis by (simp add: strip_input_def)
qed

lemma scheme_ok_visible: "scheme_ok scheme \<Longrightarrow> \<forall>c \<in> set scheme. \<not> c0_or_space c"
  by (auto simp: scheme_ok_def list_all_iff scheme_char_visible)

lemma parse_scheme_serialised:
  assumes "scheme_ok scheme"
  shows "parse_scheme (scheme @ '':'' @ rest) = Some (scheme, rest)"
proof -
  from assms obtain c cs where sc: "scheme = c # cs" "is_alpha c"
    "\<forall>x \<in> set cs. is_scheme_char x" "toLowerCase (c # cs) = c # cs"
    by (cases scheme) (auto simp: scheme_ok_def list_all_iff)
  have colon: "\<not> is_scheme_char CHR '':''"
    by (simp add: is_scheme_char_def is_alpha_def is_digit_def)
  from sc(3) colon have "takeWhile is_scheme_char (cs @ CHR '':'' # rest) = cs"
    "dropWhile is_scheme_char (cs @ CHR '':'' # rest) = CHR '':'' # rest"
    by simp_all
  with sc show ?thesis by (simp add: parse_scheme_def)
qed

text \<open>The path state reads a segment of plain characters into its buffer unchanged.\<close>

lemma path_state_plain:
  assumes "list_all (plain_char E special) segment"
  shows "path_state E special file path buffer (segment @ rest) =
         path_state E special file path (buffer @ segment) rest"
  using assms
proof (induction segment arbitrary: buffer)
  case Nil
  show ?case by simp
next
  case (Cons c cs)
  from Cons.prems have c: "\<not> is_slash special c" "c \<noteq> CHR ''?''" "c \<noteq> CHR ''#''" "\<not> E c"
    by (simp_all add: plain_char_def)
  from Cons.prems have "list_all (plain_char E special) cs" by simp
  from Cons.IH [OF this, of "buffer @ [c]"] c show ?case
    by (simp add: percent_encode_def)
qed

lemma end_segment_ok:
  assumes "segment_ok E special segment"
    and "file \<and> path = [] \<and> windows_drive_letter segment \<longrightarrow> normalized_drive_letter segment"
  shows "end_segment file path segment slash = path @ [segment]"
proof -
  have "[hd segment, CHR '':''] = segment" if "normalized_drive_letter segment"
    using that by (auto simp: normalized_drive_letter_def split: list.splits)
  with assms show ?thesis
    by (auto simp: end_segment_def segment_ok_def)
qed

text \<open>Parsed again, a serialised path is the list of its segments.\<close>

lemma path_state_serialised:
  assumes "list_all (segment_ok E special) (segment # path')"
    and "file \<and> path = [] \<and> windows_drive_letter segment \<longrightarrow> normalized_drive_letter segment"
  shows "path_state E special file path [] (segment @ serialize_path path') =
         (path @ segment # path', [])"
  using assms
proof (induction path' arbitrary: path segment)
  case Nil
  then have "list_all (plain_char E special) segment" by (simp add: segment_ok_def)
  moreover from Nil have "end_segment file path segment False = path @ [segment]"
    using end_segment_ok [of E special segment "file" path False] by simp
  ultimately show ?case
    using path_state_plain [of E special segment "file" path "[]" "[]"]
    by (simp add: serialize_path_def)
next
  case (Cons s ss)
  then have "list_all (plain_char E special) segment" by (simp add: segment_ok_def)
  from path_state_plain [of E special segment "file" path "[]"
      "CHR ''/'' # s @ serialize_path ss", OF this]
  have "path_state E special file path [] (segment @ serialize_path (s # ss)) =
        path_state E special file path segment (CHR ''/'' # s @ serialize_path ss)"
    by (simp add: serialize_path_def)
  also have "\<dots> = path_state E special file (path @ [segment]) [] (s @ serialize_path ss)"
  proof -
    from Cons.prems have "end_segment file path segment True = path @ [segment]"
      using end_segment_ok [of E special segment "file" path True] by simp
    then show ?thesis by (simp add: is_slash_def)
  qed
  also from Cons.prems have "\<dots> = ((path @ [segment]) @ s # ss, [])"
    by (intro Cons.IH) simp_all
  finally show ?case by simp
qed

lemma path_start_serialised:
  assumes "path_ok E scheme path"
  shows "path_start E (is_special scheme) (scheme = ''file'') (serialize_path path) = (path, [])"
proof (cases path)
  case Nil
  with assms show ?thesis by (simp add: path_ok_def path_start_def serialize_path_def)
next
  case (Cons s ss)
  with assms have "path_state E (is_special scheme) (scheme = ''file'') [] [] (s @ serialize_path ss) =
      ([] @ s # ss, [])"
    by (intro path_state_serialised) (auto simp: path_ok_def)
  with Cons show ?thesis
    by (cases "is_special scheme") (simp_all add: path_start_def serialize_path_def is_slash_def)
qed

lemma alpha_range:
  "is_alpha c \<Longrightarrow> (65 \<le> (of_char c :: nat) \<and> (of_char c :: nat) \<le> 90) \<or> (97 \<le> (of_char c :: nat) \<and> (of_char c :: nat) \<le> 122)"
  by (auto simp: is_alpha_def)

lemma host_char_facts:
  assumes "host_char c"
  shows "\<not> c0_or_space c" "\<not> forbidden_host c" "\<not> c0_control_set c"
    "\<not> ends_authority special c" "c \<noteq> CHR ''@''" "c \<noteq> CHR '':''" "c \<noteq> CHR ''[''" "c \<noteq> CHR '']''"
proof -
  from assms have r: "(65 \<le> (of_char c :: nat) \<and> (of_char c :: nat) \<le> 90) \<or> (97 \<le> (of_char c :: nat) \<and> (of_char c :: nat) \<le> 122) \<or> of_char c = (46 :: nat)"
    using alpha_range [of c] by (auto simp: host_char_def)
  from r show "\<not> c0_or_space c" by (auto simp: c0_or_space_def)
  from r show "\<not> c0_control_set c" by (auto simp: c0_control_set_def)
  from r show "\<not> forbidden_host c" by (auto simp: forbidden_host_def)
  from r show "\<not> ends_authority special c" by (auto simp: ends_authority_def is_slash_def)
  from r show "c \<noteq> CHR ''@''" "c \<noteq> CHR '':''" "c \<noteq> CHR ''[''" "c \<noteq> CHR '']''" by auto
qed

lemma valid_host_chars:
  assumes "toLowerCase h \<in> set validDomains"
  shows "h \<noteq> [] \<and> (\<forall>c \<in> set h. host_char c) \<and> 10 \<le> length h"
proof -
  have "\<forall>d \<in> set validDomains. (\<forall>c \<in> set d. host_char c) \<and> 10 \<le> length d"
    by code_simp
  with assms have d: "\<forall>c \<in> set (toLowerCase h). host_char c" "10 \<le> length (toLowerCase h)"
    by blast+
  have "host_char c" if "c \<in> set h" for c
  proof -
    from that d(1) have "host_char (lower_char c)" by (simp add: toLowerCase_def)
    then show ?thesis by (simp add: host_char_def lower_char_alpha lower_char_dot)
  qed
  with d(2) show ?thesis by (auto simp: toLowerCase_def)
qed

lemma encode_str_plain: "\<forall>c \<in> set s. \<not> S c \<Longrightarrow> encode_str S s = s"
  by (induction s) (simp_all add: encode_str_def percent_encode_def)

lemma parse_host_opaque:
  assumes "\<forall>c \<in> set h. host_char c"
  shows "parse_host False h = Some h"
proof -
  have "\<not> forbidden_host c \<and> \<not> c0_control_set c \<and> c \<noteq> CHR ''['' \<and> c \<noteq> CHR '']''"
    if "c \<in> set h" for c
    using that assms host_char_facts(2,3,7,8) [of c] by simp
  then have "\<forall>c \<in> set h. \<not> forbidden_host c" "\<forall>c \<in> set h. \<not> c0_control_set c"
    "CHR ''['' \<notin> set h" "CHR '']'' \<notin> set h"
    by blast+
  then show ?thesis
    by (simp add: parse_host_def parse_opaque_host_def encode_str_plain)
qed

lemma parse_host_domain:
  assumes "h \<in> set validDomains"
  shows "parse_host True h = Some h"
proof -
  have "parse_host True ''instagram.com'' = Some ''instagram.com''"
    "parse_host True ''www.instagram.com'' = Some ''www.instagram.com''"
    "parse_host True ''m.instagram.com'' = Some ''m.instagram.com''"
    "parse_host True ''instagr.am'' = Some ''instagr.am''"
    "parse_host True ''www.instagr.am'' = Some ''www.instagr.am''"
    by code_simp+
  with assms show ?thesis by (auto simp: validDomains_def)
qed

lemma serialize_path_cases:
  "serialize_path path = [] \<or> (\<exists>t. serialize_path path = CHR ''/'' # t)"
  by (cases path) (simp_all add: serialize_path_def)

lemma serialized_path_visible:
  assumes "list_all (segment_ok E special) path"
  shows "\<forall>c \<in> set (serialize_path path). \<not> c0_or_space c"
proof -
  have "\<not> c0_or_space CHR ''/''" by (simp add: c0_or_space_def)
  moreover have "\<not> c0_or_space c" if "s \<in> set path" "c \<in> set s" for s c
  proof -
    from assms that have "plain_char E special c"
      by (auto simp: list_all_iff segment_ok_def)
    then show ?thesis by (rule plain_visible)
  qed
  ultimately show ?thesis by (auto simp: serialize_path_def)
qed

lemma takeWhile_host:
  assumes "\<forall>c \<in> set h. host_char c"
  shows "takeWhile (\<lambda>c. \<not> ends_authority special c) (h @ serialize_path path) = h"
    and "dropWhile (\<lambda>c. \<not> ends_authority special c) (h @ serialize_path path) = serialize_path path"
proof -
  from assms have h: "\<forall>c \<in> set h. \<not> ends_authority special c"
    using host_char_facts(4) by blast
  have "ends_authority special CHR ''/''" by (simp add: ends_authority_def is_slash_def)
  with h serialize_path_cases [of path]
  show "takeWhile (\<lambda>c. \<not> ends_authority special c) (h @ serialize_path path) = h"
    and "dropWhile (\<lambda>c. \<not> ends_authority special c) (h @ serialize_path path) = serialize_path path"
    by (auto simp: takeWhile_append dropWhile_append)
qed

lemma authority_state_serialised:
  assumes "h \<noteq> []" "\<forall>c \<in> set h. host_char c"
    and "parse_host (is_special scheme) h = Some h"
    and "path_ok E scheme path" and "scheme \<noteq> ''file''"
  shows "authority_state E scheme (h @ serialize_path path) =
         Some (make_url scheme [] [] h [] (serialize_path path) [])"
proof -
  from assms(2) have no: "CHR ''@'' \<notin> set h" "\<forall>c \<in> set h. c \<noteq> CHR '':''"
    using host_char_facts by blast+
  from no(2) have colon: "takeWhile (\<lambda>c. c \<noteq> CHR '':'') h = h" "dropWhile (\<lambda>c. c \<noteq> CHR '':'') h = []"
    by simp_all
  have port: "parse_port scheme [] = Some []"
    by (simp add: parse_port_def)
  from assms(4,5) have path: "path_start E (is_special scheme) False (serialize_path path) = (path, [])"
    using path_start_serialised [of E scheme path] by simp
  show ?thesis
    by (simp add: authority_state_def Let_def takeWhile_host [OF assms(2)] split_credentials_def
        no colon assms(1,3) port path encode_str_def)
qed

lemma file_state_serialised:
  assumes "h \<in> set validDomains" "\<forall>c \<in> set h. host_char c" "10 \<le> length h"
    and "path_ok E ''file'' path"
  shows "file_state E (''//'' @ h @ serialize_path path) =
         Some (make_url ''file'' [] [] h [] (serialize_path path) [])"
proof -
  from assms(3) have drive: "\<not> windows_drive_letter h" "h \<noteq> []"
    by (auto simp: windows_drive_letter_def split: list.splits)
  from assms(1) have local: "h \<noteq> ''localhost''"
    by (auto simp: validDomains_def)
  have special: "is_special ''file''"
    by (simp add: is_special_def special_schemes_def)
  from assms(4) special have path: "path_start E True True (serialize_path path) = (path, [])"
    using path_start_serialised [of E "''file''" path] by simp
  show ?thesis
    by (simp add: file_state_def is_slash_def Let_def ends_file_host_def
        takeWhile_host [OF assms(2)] drive parse_host_domain [OF assms(1)] local path file_path_def)
qed

text \<open>
  Parsed again by the reference parser, the serialisation of a scheme, a host that
  \<^verbatim>\<open>isValidInstagramUrl\<close> accepts and a path gives that scheme, host and path.
\<close>

lemma parse_URL_serialised_valid:
  assumes "scheme_ok scheme" and "toLowerCase h \<in> set validDomains"
    and "is_special scheme \<longrightarrow> toLowerCase h = h" and "path_ok E scheme path"
  shows "parse_URL E (scheme @ '':'' @ ''//'' @ h @ serialize_path path) =
         Some (make_url scheme [] [] h [] (serialize_path path) [])"
proof -
  let ?s = "scheme @ '':'' @ ''//'' @ h @ serialize_path path"
  from valid_host_chars [OF assms(2)] have h: "h \<noteq> []" "\<forall>c \<in> set h. host_char c" "10 \<le> length h"
    by simp_all
  have "\<forall>c \<in> set ?s. \<not> c0_or_space c"
  proof -
    have "\<not> c0_or_space CHR '':''" "\<not> c0_or_space CHR ''/''"
      by (simp_all add: c0_or_space_def)
    moreover from h(2) have "\<forall>c \<in> set h. \<not> c0_or_space c"
      using host_char_facts(1) by blast
    moreover from assms(4) have "\<forall>c \<in> set (serialize_path path). \<not> c0_or_space c"
      using serialized_path_visible [of E "is_special scheme" path] by (simp add: path_ok_def)
    ultimately show ?thesis
      using scheme_ok_visible [OF assms(1)] by auto
  qed
  then have "strip_input ?s = ?s" by (rule strip_input_visible)
  moreover have "parse_scheme ?s = Some (scheme, ''//'' @ h @ serialize_path path)"
    using parse_scheme_serialised [OF assms(1)] by simp
  ultimately have start: "parse_scheme (strip_input ?s) = Some (scheme, ''//'' @ h @ serialize_path path)"
    by simp
  from h obtain c cs where hc: "h = c # cs" "\<not> is_slash True c"
    using host_char_facts(4) [of _ True] by (cases h) (auto simp: ends_authority_def)
  show ?thesis
  proof (cases "scheme = ''file''")
    case True
    then have "is_special scheme" by (simp add: is_special_def special_schemes_def)
    with assms(2,3) have "h \<in> set validDomains" by simp
    with True h assms(4) have "file_state E (''//'' @ h @ serialize_path path) =
         Some (make_url ''file'' [] [] h [] (serialize_path path) [])"
      by (intro file_state_serialised) simp_all
    with True start show ?thesis by (simp add: parse_URL_def)
  next
    case False
    have "parse_host (is_special scheme) h = Some h"
    proof (cases "is_special scheme")
      case True
      with assms(2,3) have "h \<in> set validDomains" by simp
      with True show ?thesis by (simp add: parse_host_domain)
    next
      case False
      with h(2) show ?thesis by (simp add: parse_host_opaque)
    qed
    with h assms(4) False have a: "authority_state E scheme (h @ serialize_path path) =
         Some (make_url scheme [] [] h [] (serialize_path path) [])"
      by (intro authority_state_serialised) simp_all
    from hc have "dropWhile (is_slash True) (CHR ''/'' # CHR ''/'' # h @ serialize_path path) =
        h @ serialize_path path"
      by (simp add: is_slash_def)
    with a False start show ?thesis by (simp add: parse_URL_def)
  qed
qed

section \<open>The reference parser returns serialised URLs\<close>

lemma parse_scheme_ok:
  assumes "parse_scheme t = Some (scheme, rest)"
  shows "scheme_ok scheme"
proof -
  from assms obtain c cs where t: "t = c # cs" "is_alpha c"
    "scheme = toLowerCase (c # takeWhile is_scheme_char cs)"
    by (auto simp: parse_scheme_def split: list.splits if_splits)
  have "is_scheme_char (lower_char c)"
    using t(2) by (simp add: is_scheme_char_def lower_char_alpha)
  moreover have "is_scheme_char (lower_char x)" if "x \<in> set (takeWhile is_scheme_char cs)" for x
    using that by (auto simp: lower_char_scheme dest: set_takeWhileD)
  ultimately have "list_all is_scheme_char scheme"
    by (auto simp: t(3) toLowerCase_def list_all_iff)
  moreover have "toLowerCase scheme = scheme"
    by (simp add: t(3) toLowerCase_def lower_char_idem)
  ultimately show ?thesis
    using t(2) by (simp add: scheme_ok_def t(3) toLowerCase_def lower_char_alpha)
qed

lemma toLowerCase_idem: "toLowerCase (toLowerCase s) = toLowerCase s"
  by (simp add: toLowerCase_def lower_char_idem)

lemma parse_host_lower:
  "parse_host True input = Some h \<Longrightarrow> toLowerCase h = h"
  by (auto simp: parse_host_def parse_domain_def Let_def toLowerCase_idem split: if_splits)

lemma c0_or_space_query_set: "c0_or_space c \<Longrightarrow> query_set c"
proof -
  assume "c0_or_space c"
  then have "of_char c < (32 :: nat) \<or> of_char c = (32 :: nat)"
    by (auto simp: c0_or_space_def)
  then show ?thesis
    using of_char_space [of c] by (auto simp: query_set_def c0_control_set_def)
qed

lemma hex_digit_range:
  "is_hex_digit c \<Longrightarrow>
     (48 \<le> (of_char c :: nat) \<and> (of_char c :: nat) \<le> 57) \<or>
     (65 \<le> (of_char c :: nat) \<and> (of_char c :: nat) \<le> 70) \<or>
     (97 \<le> (of_char c :: nat) \<and> (of_char c :: nat) \<le> 102)"
  by (auto simp: is_hex_digit_def)

lemma not_encoded:
  assumes "is_alpha c \<or> is_hex_digit c \<or> c = CHR ''%'' \<or> c = CHR '':''"
  shows "\<not> path_set c" and "\<not> legacy_path_set c"
proof -
  from assms alpha_range [of c] hex_digit_range [of c]
  have r: "(48 \<le> (of_char c :: nat) \<and> (of_char c :: nat) \<le> 58) \<or>
      (65 \<le> (of_char c :: nat) \<and> (of_char c :: nat) \<le> 90) \<or>
      (97 \<le> (of_char c :: nat) \<and> (of_char c :: nat) \<le> 122) \<or> of_char c = (37 :: nat)"
    by auto
  from r show "\<not> path_set c"
    by (auto simp: path_set_def query_set_def c0_control_set_def)
  from r show "\<not> legacy_path_set c"
    by (auto simp: legacy_path_set_def query_set_def c0_control_set_def)
qed

text \<open>
  The path percent-encode set of the Standard is admissible, and so is the one from
  before \<open>^\<close> was added to it.
\<close>

lemma admissible_path_set: "admissible path_set"
  using not_encoded(1) c0_or_space_query_set by (auto simp: admissible_def path_set_def)

lemma admissible_legacy_path_set: "admissible legacy_path_set"
  using not_encoded(2) c0_or_space_query_set by (auto simp: admissible_def legacy_path_set_def)

text \<open>What the path state writes into its buffer is plain.\<close>

lemma plainI:
  assumes "admissible E" and "\<not> E c" and "\<not> is_slash special c"
    and "c \<noteq> CHR ''?''" and "c \<noteq> CHR ''#''"
  shows "plain_char E special c"
  using assms by (auto simp: plain_char_def admissible_def)

lemma hex_digit_plain:
  assumes "admissible E"
  shows "plain_char E special (hex_digit k)"
proof -
  have h: "hex_digit k \<in> set ''0123456789ABCDEF''"
    unfolding hex_digit_def by (rule nth_mem) simp
  then have "is_hex_digit (hex_digit k)"
    by (auto simp: is_hex_digit_def)
  with assms have "\<not> E (hex_digit k)"
    by (simp add: admissible_def)
  moreover from h have "\<not> is_slash special (hex_digit k)" "hex_digit k \<noteq> CHR ''?''"
    "hex_digit k \<noteq> CHR ''#''"
    by (auto simp: is_slash_def)
  ultimately show ?thesis using assms by (intro plainI)
qed

lemma percent_byte_plain:
  assumes "admissible E"
  shows "list_all (plain_char E special) (percent_byte b)"
proof -
  from assms have "\<not> E CHR ''%''" by (simp add: admissible_def)
  with assms have "plain_char E special CHR ''%''"
    by (intro plainI) (simp_all add: is_slash_def)
  with assms show ?thesis
    by (simp add: percent_byte_def hex_digit_plain)
qed

lemma percent_encode_plain:
  assumes "admissible E" and "\<not> is_slash special c" and "c \<noteq> CHR ''?''" and "c \<noteq> CHR ''#''"
  shows "list_all (plain_char E special) (percent_encode E c)"
proof (cases "E c")
  case True
  with percent_byte_plain [OF assms(1), of special] show ?thesis
    by (simp add: percent_encode_def utf8_def)
next
  case False
  with assms have "plain_char E special c" by (intro plainI)
  with False show ?thesis by (simp add: percent_encode_def)
qed

lemma alpha_plain:
  assumes "admissible E" and "is_alpha c"
  shows "plain_char E special c"
proof -
  from assms have "\<not> E c" by (simp add: admissible_def)
  moreover from assms(2) alpha_range [of c]
  have "\<not> is_slash special c" "c \<noteq> CHR ''?''" "c \<noteq> CHR ''#''"
    by (auto simp: is_slash_def)
  ultimately show ?thesis using assms(1) by (intro plainI)
qed

lemma segment_ok_empty: "segment_ok E special []"
  by (simp add: segment_ok_def single_dot_def double_dot_def toLowerCase_def)

lemma segment_ok_drive:
  assumes "admissible E" and "windows_drive_letter buffer"
  shows "segment_ok E special [hd buffer, CHR '':'']"
    and "normalized_drive_letter [hd buffer, CHR '':'']"
proof -
  from assms(2) obtain a c where b: "buffer = [a, c]" "is_alpha a"
    by (auto simp: windows_drive_letter_def split: list.splits)
  from assms(1) have "\<not> E CHR '':''" by (simp add: admissible_def)
  with assms(1) have "plain_char E special CHR '':''"
    by (intro plainI) (simp_all add: is_slash_def)
  moreover have "lower_char CHR '':'' = CHR '':''"
    by (simp add: lower_char_def)
  ultimately show "segment_ok E special [hd buffer, CHR '':'']"
    using b alpha_plain [OF assms(1), of a special]
    by (simp add: segment_ok_def single_dot_def double_dot_def toLowerCase_def)
  from b show "normalized_drive_letter [hd buffer, CHR '':'']"
    by (simp add: normalized_drive_letter_def)
qed

lemma shorten_inv:
  assumes "list_all (segment_ok E special) path"
    and "file \<and> path \<noteq> [] \<and> windows_drive_letter (hd path) \<longrightarrow> normalized_drive_letter (hd path)"
  shows "list_all (segment_ok E special) (shorten file path)"
    and "file \<and> shorten file path \<noteq> [] \<and> windows_drive_letter (hd (shorten file path)) \<longrightarrow>
         normalized_drive_letter (hd (shorten file path))"
proof -
  from assms(1) show "list_all (segment_ok E special) (shorten file path)"
    by (auto simp: shorten_def list_all_iff dest: in_set_butlastD)
  have "hd (butlast path) = hd path" if "butlast path \<noteq> []"
    using that by (cases path) auto
  with assms(2) show "file \<and> shorten file path \<noteq> [] \<and> windows_drive_letter (hd (shorten file path)) \<longrightarrow>
         normalized_drive_letter (hd (shorten file path))"
    by (auto simp: shorten_def)
qed

lemma end_segment_inv:
  assumes "admissible E"
    and "list_all (segment_ok E special) path" and "list_all (plain_char E special) buffer"
    and "file \<and> path \<noteq> [] \<and> windows_drive_letter (hd path) \<longrightarrow> normalized_drive_letter (hd path)"
  shows "list_all (segment_ok E special) (end_segment file path buffer slash)"
    and "file \<and> end_segment file path buffer slash \<noteq> [] \<and>
         windows_drive_letter (hd (end_segment file path buffer slash)) \<longrightarrow>
         normalized_drive_letter (hd (end_segment file path buffer slash))"
    and "\<not> slash \<longrightarrow> end_segment file path buffer slash \<noteq> []"
proof -
  note sh = shorten_inv [OF assms(2,4)]
  have wd: "\<not> windows_drive_letter []"
    by (simp add: windows_drive_letter_def)
  have hd_app: "hd (xs @ [y]) = (if xs = [] then y else hd xs)" for xs :: "string list" and y
    by (cases xs) auto
  show "list_all (segment_ok E special) (end_segment file path buffer slash)"
  proof (cases "double_dot buffer \<or> single_dot buffer")
    case True
    with assms(2) sh(1) show ?thesis
      by (auto simp: end_segment_def segment_ok_empty)
  next
    case False
    with assms(3) have "segment_ok E special buffer"
      by (simp add: segment_ok_def)
    with False assms(2) segment_ok_drive(1) [OF assms(1), of buffer special] show ?thesis
      by (simp add: end_segment_def)
  qed
  show "file \<and> end_segment file path buffer slash \<noteq> [] \<and>
         windows_drive_letter (hd (end_segment file path buffer slash)) \<longrightarrow>
         normalized_drive_letter (hd (end_segment file path buffer slash))"
    using assms(4) sh(2) segment_ok_drive(2) [OF assms(1), of buffer] wd
    by (auto simp: end_segment_def hd_app)
  show "\<not> slash \<longrightarrow> end_segment file path buffer slash \<noteq> []"
    by (simp add: end_segment_def)
qed

text \<open>The path that the path state returns is in serialised form.\<close>

lemma path_state_inv:
  assumes "path_state E special file path buffer input = (path', rest)"
    and "admissible E"
    and "list_all (segment_ok E special) path" and "list_all (plain_char E special) buffer"
    and "file \<and> path \<noteq> [] \<and> windows_drive_letter (hd path) \<longrightarrow> normalized_drive_letter (hd path)"
  shows "list_all (segment_ok E special) path' \<and> path' \<noteq> [] \<and>
         (file \<and> windows_drive_letter (hd path') \<longrightarrow> normalized_drive_letter (hd path'))"
  using assms
proof (induction E special "file" path buffer input rule: path_state.induct)
  case (1 E special fl path buffer)
  with end_segment_inv [of E special path buffer fl False] show ?case by auto
next
  case (2 E special fl path buffer c cs)
  note inv = end_segment_inv [OF "2.prems"(2,3,4,5)]
  show ?case
  proof (cases "is_slash special c")
    case True
    with "2.prems"(1) have "path_state E special fl (end_segment fl path buffer True) [] cs = (path', rest)"
      by simp
    with True inv [of True] "2.prems"(2) show ?thesis
      by (intro "2.IH"(1)) simp_all
  next
    case False
    show ?thesis
    proof (cases "c = CHR ''?'' \<or> c = CHR ''#''")
      case True
      with False "2.prems"(1) have "path' = end_segment fl path buffer False" by auto
      with inv [of False] show ?thesis by auto
    next
      case stay: False
      with False "2.prems"(1)
      have "path_state E special fl path (buffer @ percent_encode E c) cs = (path', rest)"
        by simp
      moreover from False stay "2.prems"(2,4)
      have "list_all (plain_char E special) (buffer @ percent_encode E c)"
        by (simp add: percent_encode_plain)
      ultimately show ?thesis
        using False stay "2.prems"(2,3,5) by (intro "2.IH"(2)) simp_all
    qed
  qed
qed

lemma path_start_inv:
  assumes "path_start E special file input = (path, rest)" and "admissible E"
  shows "list_all (segment_ok E special) path \<and> (special \<longrightarrow> path \<noteq> []) \<and>
         (file \<and> path \<noteq> [] \<and> windows_drive_letter (hd path) \<longrightarrow> normalized_drive_letter (hd path))"
proof (cases "path = []")
  case True
  have "path_state E special file [] [] i \<noteq> ([], r)" for i r
    using path_state_inv [of E special "file" "[]" "[]" i "[]" r] assms(2) by auto
  with assms(1) True show ?thesis
    by (auto simp: path_start_def simp del: path_state.simps split: list.splits if_splits)
next
  case False
  with assms(1) obtain i where "path_state E special file [] [] i = (path, rest)"
    by (auto simp: path_start_def simp del: path_state.simps split: list.splits if_splits)
  from path_state_inv [OF this assms(2)] show ?thesis by simp
qed

lemma serialised_make_url:
  assumes "scheme_ok scheme" and "is_special scheme \<longrightarrow> toLowerCase h = h"
    and "h \<noteq> [] \<longrightarrow> (\<exists>path. p = serialize_path path \<and> path_ok E scheme path)"
  shows "serialised E (make_url scheme user pass h prt p rest)"
  using assms by (auto simp: serialised_def make_url_def)

lemma special_file: "is_special ''file''"
  by (simp add: is_special_def special_schemes_def)

lemma scheme_ok_file: "scheme_ok ''file''"
  by (simp add: scheme_ok_def is_scheme_char_def is_alpha_def toLowerCase_def lower_char_def)

lemma authority_state_out:
  assumes "authority_state E scheme input = Some u" and "admissible E"
    and "scheme_ok scheme" and "scheme \<noteq> ''file''"
  shows "serialised E u"
proof -
  from assms(1) obtain user pass h prt path rest i where
    u: "u = make_url scheme user pass h prt (serialize_path path) rest"
    and h: "parse_host (is_special scheme) i = Some h"
    and p: "path_start E (is_special scheme) False (dropWhile (\<lambda>c. \<not> ends_authority (is_special scheme) c) input) = (path, rest)"
    by (auto simp: authority_state_def Let_def split: option.splits prod.splits if_splits)
  from h have "is_special scheme \<longrightarrow> toLowerCase h = h"
    using parse_host_lower by auto
  moreover from path_start_inv [OF p assms(2)] assms(4) have "path_ok E scheme path"
    by (simp add: path_ok_def)
  ultimately show ?thesis
    unfolding u using assms(3) by (intro serialised_make_url) auto
qed

lemma file_state_out:
  assumes "file_state E input = Some u" and "admissible E"
  shows "serialised E u"
proof -
  have none: "serialised E (make_url ''file'' [] [] [] [] p r)" for p r
    by (intro serialised_make_url) (simp_all add: scheme_ok_file toLowerCase_def)
  show ?thesis
  proof (cases "hostname u = []")
    case True
    with assms(1) have "\<exists>p r. u = make_url ''file'' [] [] [] [] p r"
      by (auto simp: file_state_def file_path_def Let_def make_url_def
          split: list.splits if_splits option.splits)
    with none show ?thesis by auto
  next
    case False
    with assms(1) obtain h i rest where
      h: "parse_host True i = Some h"
      and u: "u = make_url ''file'' [] [] h []
                (serialize_path (fst (path_start E True True rest))) (snd (path_start E True True rest))"
      by (auto simp: file_state_def file_path_def Let_def make_url_def
          split: list.splits if_splits option.splits)
    obtain path r where p: "path_start E True True rest = (path, r)"
      by (cases "path_start E True True rest")
    from path_start_inv [OF p assms(2)] have "path_ok E ''file'' path"
      by (simp add: path_ok_def special_file)
    with p parse_host_lower [OF h] show ?thesis
      unfolding u by (intro serialised_make_url) (auto simp: scheme_ok_file)
  qed
qed

text \<open>
  Every URL that the basic URL parser returns is serialised, when its path
  percent-encode set is admissible.
\<close>

lemma parse_URL_serialised:
  assumes "parse_URL E s = Some u" and "admissible E"
  shows "serialised E u"
proof -
  from assms(1) obtain scheme rest where ps: "parse_scheme (strip_input s) = Some (scheme, rest)"
    by (auto simp: parse_URL_def split: option.splits)
  note ok = parse_scheme_ok [OF ps]
  have none: "serialised E (make_url scheme [] [] [] [] p r)" for p r
    using ok by (intro serialised_make_url) (simp_all add: toLowerCase_def)
  show ?thesis
  proof (cases "scheme = ''file''")
    case True
    with assms ps show ?thesis by (simp add: parse_URL_def file_state_out)
  next
    case False
    show ?thesis
    proof (cases "\<exists>i. authority_state E scheme i = Some u")
      case True
      with ok False assms(2) show ?thesis using authority_state_out by blast
    next
      case no: False
      with assms(1) ps False have "\<exists>p r. u = make_url scheme [] [] [] [] p r"
        by (auto simp: parse_URL_def split: if_splits list.splits prod.splits)
      with none show ?thesis by auto
    qed
  qed
qed

lemma new_URL_serialised: "new_URL s = Some u \<Longrightarrow> serialised path_set u"
  unfolding new_URL_def by (rule parse_URL_serialised) (simp_all add: admissible_path_set)

text \<open>
  So the basic URL parser meets both conditions of the idempotence theorem, whatever
  the admissible set.
\<close>

lemma parse_URL_conditions:
  assumes "admissible E"
  shows "agrees_on_clean_urls E (parse_URL E)" and "returns_serialised E (parse_URL E)"
  using assms parse_URL_serialised
  by (auto simp: agrees_on_clean_urls_def returns_serialised_def)

lemma serialised_path_no_mark:
  assumes "path_ok E scheme path"
  shows "CHR ''?'' \<notin> set (serialize_path path)"
proof -
  have "c \<noteq> CHR ''?''" if "s \<in> set path" "c \<in> set s" for s c
  proof -
    from assms that have "plain_char E (is_special scheme) c"
      by (auto simp: path_ok_def list_all_iff segment_ok_def)
    then show ?thesis by (simp add: plain_char_def)
  qed
  then show ?thesis by (auto simp: serialize_path_def)
qed

lemma clean_serialised:
  assumes "URL s = Some x" and "CHR ''?'' \<notin> set (pathname x)"
  shows "\<exists>r. cleanInstagramUrl URL s = Inr r \<and>
           cleanUrl r = protocol x @ ''//'' @ hostname x @ pathname x"
proof -
  from assms(2) have "\<not> includes_str (pathname x) ''/?''"
    by (simp add: no_mark_no_separator)
  then have "hd (split_str (pathname x) ''/?'') = pathname x"
    by (simp add: split_str_no_occurrence)
  with clean_parsed [of URL s x] assms(1) show ?thesis by auto
qed

section \<open>No \<open>?\<close> and no \<open>#\<close> in a parsed URL\<close>

lemma segments_no_mark:
  assumes "list_all (segment_ok path_set special) path"
  shows "CHR ''?'' \<notin> set (serialize_path path) \<and> CHR ''#'' \<notin> set (serialize_path path)"
proof -
  have "c \<noteq> CHR ''?'' \<and> c \<noteq> CHR ''#''" if "s \<in> set path" "c \<in> set s" for s c
  proof -
    from assms that have "plain_char path_set special c"
      by (auto simp: list_all_iff segment_ok_def)
    then show ?thesis by (simp add: plain_char_def)
  qed
  then show ?thesis by (auto simp: serialize_path_def)
qed

lemma path_state_no_mark:
  assumes "list_all (plain_char path_set special) buffer"
  shows "CHR ''?'' \<notin> set (serialize_path (fst (path_state path_set special file [] buffer input))) \<and>
         CHR ''#'' \<notin> set (serialize_path (fst (path_state path_set special file [] buffer input)))"
proof -
  obtain path rest where p: "path_state path_set special file [] buffer input = (path, rest)"
    by (cases "path_state path_set special file [] buffer input")
  from path_state_inv [OF p admissible_path_set _ assms] have "list_all (segment_ok path_set special) path" by simp
  with p show ?thesis by (simp add: segments_no_mark)
qed

lemma path_start_no_mark:
  "CHR ''?'' \<notin> set (serialize_path (fst (path_start path_set special file input))) \<and>
   CHR ''#'' \<notin> set (serialize_path (fst (path_start path_set special file input)))"
proof -
  obtain path rest where p: "path_start path_set special file input = (path, rest)"
    by (cases "path_start path_set special file input")
  from path_start_inv [OF p admissible_path_set] have "list_all (segment_ok path_set special) path" by simp
  with p show ?thesis by (simp add: segments_no_mark)
qed

lemma percent_encode_no_mark:
  assumes "c \<noteq> CHR ''?''" "c \<noteq> CHR ''#''"
  shows "CHR ''?'' \<notin> set (percent_encode S c) \<and> CHR ''#'' \<notin> set (percent_encode S c)"
proof -
  have "CHR ''?'' \<notin> set (percent_byte b) \<and> CHR ''#'' \<notin> set (percent_byte b)" for b
    using percent_byte_plain [OF admissible_path_set, of False b]
    by (auto simp: plain_char_def list_all_iff)
  with assms show ?thesis
    by (auto simp: percent_encode_def utf8_def)
qed

lemma opaque_path_no_mark:
  "CHR ''?'' \<notin> set (fst (opaque_path_state input)) \<and>
   CHR ''#'' \<notin> set (fst (opaque_path_state input))"
proof (induction input)
  case Nil
  show ?case by simp
next
  case (Cons c cs)
  show ?case
  proof (cases "c = CHR ''?'' \<or> c = CHR ''#''")
    case True
    then show ?thesis by auto
  next
    case False
    with Cons.IH percent_encode_no_mark [of c c0_control_set] show ?thesis
      by (simp add: case_prod_beta)
  qed
qed

lemma drive_letter_plain: "windows_drive_letter b \<Longrightarrow> list_all (plain_char path_set special) b"
proof -
  assume "windows_drive_letter b"
  then obtain a c where b: "b = [a, c]" "is_alpha a" "c = CHR '':'' \<or> c = CHR ''|''"
    by (auto simp: windows_drive_letter_def split: list.splits)
  have "plain_char path_set special CHR '':''" "plain_char path_set special CHR ''|''"
    by (simp_all add: plain_char_def path_set_def query_set_def c0_control_set_def is_slash_def
        c0_or_space_def)
  with b alpha_plain [OF admissible_path_set, of a special] show ?thesis by auto
qed

lemma file_state_no_mark:
  assumes "file_state path_set input = Some u"
  shows "CHR ''?'' \<notin> set (pathname u) \<and> CHR ''#'' \<notin> set (pathname u)"
proof -
  have plain: "list_all (plain_char path_set True) []" by simp
  from assms show ?thesis
    using path_state_no_mark [OF plain] path_state_no_mark [OF drive_letter_plain]
      path_start_no_mark [of True True]
    by (auto simp: file_state_def file_path_def make_url_def Let_def
        simp del: path_state.simps split: list.splits if_splits option.splits)
qed

lemma authority_state_no_mark:
  assumes "authority_state path_set scheme input = Some u"
  shows "CHR ''?'' \<notin> set (pathname u) \<and> CHR ''#'' \<notin> set (pathname u)"
  using assms path_start_no_mark [of "is_special scheme" False]
  by (auto simp: authority_state_def Let_def make_url_def case_prod_beta
      split: option.splits if_splits)

text \<open>The path of a URL that the reference parser returns holds no \<open>?\<close> and no \<open>#\<close>.\<close>

lemma new_URL_pathname_no_mark:
  assumes "new_URL s = Some u"
  shows "CHR ''?'' \<notin> set (pathname u) \<and> CHR ''#'' \<notin> set (pathname u)"
proof -
  have plain: "list_all (plain_char path_set False) []" by simp
  from assms show ?thesis
    using file_state_no_mark [of _ u] authority_state_no_mark [of _ _ u]
      opaque_path_no_mark path_state_no_mark [OF plain, of False]
    by (auto simp: new_URL_def parse_URL_def make_url_def case_prod_beta
        simp del: path_state.simps opaque_path_state.simps
        split: option.splits if_splits list.splits)
qed

lemma parse_host_no_mark:
  assumes "parse_host special input = Some h"
  shows "CHR ''?'' \<notin> set h \<and> CHR ''#'' \<notin> set h"
proof (cases special)
  case True
  with assms have "\<forall>c \<in> set h. \<not> forbidden_domain c"
    by (auto simp: parse_host_def parse_domain_def Let_def split: if_splits)
  then show ?thesis by (auto simp: forbidden_domain_def forbidden_host_def)
next
  case False
  with assms have h: "h = encode_str c0_control_set input" "\<forall>c \<in> set input. \<not> forbidden_host c"
    by (auto simp: parse_host_def parse_opaque_host_def split: if_splits)
  have "CHR ''?'' \<notin> set (percent_encode c0_control_set c) \<and>
        CHR ''#'' \<notin> set (percent_encode c0_control_set c)" if "c \<in> set input" for c
  proof -
    from h(2) that have "c \<noteq> CHR ''?''" "c \<noteq> CHR ''#''"
      by (auto simp: forbidden_host_def)
    then show ?thesis by (rule percent_encode_no_mark)
  qed
  then show ?thesis by (auto simp: h(1) encode_str_def)
qed

lemma scheme_ok_no_mark:
  assumes "scheme_ok scheme"
  shows "CHR ''?'' \<notin> set (scheme @ '':'') \<and> CHR ''#'' \<notin> set (scheme @ '':'')"
proof -
  have "\<not> is_scheme_char CHR ''?''" "\<not> is_scheme_char CHR ''#''"
    by (simp_all add: is_scheme_char_def is_alpha_def is_digit_def)
  with assms show ?thesis by (auto simp: scheme_ok_def list_all_iff)
qed

lemma new_URL_hostname_no_mark:
  assumes "new_URL s = Some u"
  shows "CHR ''?'' \<notin> set (hostname u) \<and> CHR ''#'' \<notin> set (hostname u)"
proof -
  from assms have "hostname u = [] \<or> (\<exists>sp i. parse_host sp i = Some (hostname u))"
    by (auto simp: new_URL_def parse_URL_def make_url_def file_state_def file_path_def authority_state_def
        Let_def case_prod_beta
        simp del: path_state.simps opaque_path_state.simps
        split: option.splits if_splits list.splits)
  with parse_host_no_mark show ?thesis by auto
qed

text \<open>
  The protocol, host name and path of a URL that the reference parser returns hold no
  \<open>?\<close> and no \<open>#\<close>.
\<close>

lemma new_URL_no_mark:
  assumes "new_URL s = Some u"
  shows "CHR ''?'' \<notin> set (protocol u) \<union> set (hostname u) \<union> set (pathname u)"
    and "CHR ''#'' \<notin> set (protocol u) \<union> set (hostname u) \<union> set (pathname u)"
proof -
  from new_URL_serialised [OF assms] obtain scheme where
    "protocol u = scheme @ '':''" "scheme_ok scheme"
    by (auto simp: serialised_def)
  with scheme_ok_no_mark [of scheme]
  have "CHR ''?'' \<notin> set (protocol u) \<and> CHR ''#'' \<notin> set (protocol u)" by simp
  with new_URL_hostname_no_mark [OF assms] new_URL_pathname_no_mark [OF assms]
  show "CHR ''?'' \<notin> set (protocol u) \<union> set (hostname u) \<union> set (pathname u)"
    and "CHR ''#'' \<notin> set (protocol u) \<union> set (hostname u) \<union> set (pathname u)"
    by simp_all
qed

section \<open>The form of the clean URL\<close>

text \<open>
  The method lower-cases nothing: the host of the clean URL is \<^verbatim>\<open>urlObj.hostname\<close> as
  the constructor returns it. The constructor lower-cases the host of \<^verbatim>\<open>http:\<close>,
  \<^verbatim>\<open>https:\<close> and the other special schemes; the host of any other scheme is opaque
  and keeps its case. Such a URL passes \<^verbatim>\<open>isValidInstagramUrl\<close>, which lower-cases
  the host itself, and is cleaned to a URL whose host is in upper case.
\<close>

theorem cleanUrl_host_case_counterexample:
  "new_URL ''foo://WWW.INSTAGRAM.COM/p/x'' =
     Some \<lparr>protocol = ''foo:'', username = [], password = [],
           hostname = ''WWW.INSTAGRAM.COM'', port = [], pathname = ''/p/x'',
           search = [], hash = []\<rparr> \<and>
   isValidInstagramUrl new_URL ''foo://WWW.INSTAGRAM.COM/p/x'' \<and>
   cleanInstagramUrl new_URL ''foo://WWW.INSTAGRAM.COM/p/x'' =
     Inr \<lparr>cleanUrl = ''foo://WWW.INSTAGRAM.COM/p/x'',
          removed = ''No tracking parameters found'', wasModified = False\<rparr> \<and>
   toLowerCase ''WWW.INSTAGRAM.COM'' = ''www.instagram.com''"
  by code_simp

text \<open>
  C1, amended. On a string that parses, the clean URL is the parsed protocol, \<^verbatim>\<open>//\<close>,
  the host name as the constructor returns it, and the parsed path cut at its first
  \<^verbatim>\<open>/?\<close> (the whole path when it has none); the query and the fragment of the parse
  have no part in the result.
\<close>

theorem cleanUrl_form:
  assumes "URL s = Some u"
  shows "\<exists>r path. cleanInstagramUrl URL s = Inr r \<and>
     cleanUrl r = protocol u @ ''//'' @ hostname u @ path \<and>
     (\<not> includes_str (pathname u) ''/?'' \<longrightarrow> path = pathname u) \<and>
     (\<forall>a b. pathname u = a @ ''/?'' @ b \<and> \<not> includes_str (a @ ''/'') ''/?'' \<longrightarrow> path = a) \<and>
     (\<forall>q f. cleanInstagramUrl (URL(s := Some (u\<lparr>search := q, hash := f\<rparr>))) s = Inr r)"
proof -
  let ?path = "hd (split_str (pathname u) ''/?'')"
  from clean_parsed [of URL s u] assms obtain p where
    r: "cleanInstagramUrl URL s =
           Inr \<lparr>cleanUrl = protocol u @ ''//'' @ hostname u @ ?path,
                removed = (if p \<noteq> [] then ''/?'' @ p else no_tracking),
                wasModified = (p \<noteq> [])\<rparr>"
    and p: "p = (if includes_str s ''/?'' then hd (tl (split_str s ''/?'')) else [])"
    by blast
  have "cleanInstagramUrl (URL(s := Some (u\<lparr>search := q, hash := f\<rparr>))) s =
          cleanInstagramUrl URL s" for q f
    using clean_parsed [of "URL(s := Some (u\<lparr>search := q, hash := f\<rparr>))" s
        "u\<lparr>search := q, hash := f\<rparr>"] r p
    by auto
  moreover have "\<not> includes_str (pathname u) ''/?'' \<longrightarrow> ?path = pathname u"
    by (simp add: split_str_no_occurrence)
  moreover have "\<forall>a b. pathname u = a @ ''/?'' @ b \<and> \<not> includes_str (a @ ''/'') ''/?'' \<longrightarrow> ?path = a"
    using split_str_head_first by auto
  ultimately show ?thesis using r by auto
qed

theorem cleanUrl_form_witness:
  "\<exists>r. cleanInstagramUrl new_URL ''https://WWW.INSTAGRAM.COM/p/X/?x=1'' = Inr r \<and>
       cleanUrl r = ''https://www.instagram.com/p/X/''"
proof -
  let ?s = "''https://WWW.INSTAGRAM.COM/p/X/?x=1''"
  let ?u = "\<lparr>protocol = ''https:'', username = [], password = [],
            hostname = ''www.instagram.com'', port = [], pathname = ''/p/X/'',
            search = ''?x=1'', hash = []\<rparr>"
  have 1: "new_URL ?s = Some ?u"
    by code_simp
  have 2: "\<not> includes_str (pathname ?u) ''/?''"
    by code_simp
  from cleanUrl_form [of new_URL ?s ?u, OF 1] obtain r path where
    "cleanInstagramUrl new_URL ?s = Inr r"
    "cleanUrl r = protocol ?u @ ''//'' @ hostname ?u @ path"
    "\<not> includes_str (pathname ?u) ''/?'' \<longrightarrow> path = pathname ?u"
    by blast
  with 2 show ?thesis by simp
qed

section \<open>The example of the specification\<close>

text \<open>
  C2. On \<^verbatim>\<open>https://www.instagram.com/reel/DMaaOuDK_Bk/?igsh=dHFkZW9ycmh1cnQz\<close> the
  method reports the removed text and the modification the claim states, but its
  \<^verbatim>\<open>cleanUrl\<close> keeps the slash before the \<open>?\<close>: the parsed path is
  \<^verbatim>\<open>/reel/DMaaOuDK_Bk/\<close>, the \<open>?\<close> and what follows being the query of the parse, so
  the split of the path at \<^verbatim>\<open>/?\<close> finds nothing to cut.
\<close>

theorem reel_example_keeps_trailing_slash:
  "new_URL ''https://www.instagram.com/reel/DMaaOuDK_Bk/?igsh=dHFkZW9ycmh1cnQz'' =
     Some \<lparr>protocol = ''https:'', username = [], password = [],
           hostname = ''www.instagram.com'', port = [], pathname = ''/reel/DMaaOuDK_Bk/'',
           search = ''?igsh=dHFkZW9ycmh1cnQz'', hash = []\<rparr> \<and>
   cleanInstagramUrl new_URL ''https://www.instagram.com/reel/DMaaOuDK_Bk/?igsh=dHFkZW9ycmh1cnQz'' =
     Inr \<lparr>cleanUrl = ''https://www.instagram.com/reel/DMaaOuDK_Bk/'',
          removed = ''/?igsh=dHFkZW9ycmh1cnQz'', wasModified = True\<rparr> \<and>
   ''https://www.instagram.com/reel/DMaaOuDK_Bk/'' \<noteq> ''https://www.instagram.com/reel/DMaaOuDK_Bk''"
  by code_simp

section \<open>The removed text\<close>

text \<open>
  A raw string that ends in \<^verbatim>\<open>/?\<close> contains the separator, and yet the removed text
  is the sentinel, not \<^verbatim>\<open>/?\<close>: the method tests the text after the separator for
  emptiness, and not the presence of the separator.
\<close>

theorem removed_sentinel_counterexample:
  "new_URL ''https://www.instagram.com/p/X/?'' =
     Some \<lparr>protocol = ''https:'', username = [], password = [],
           hostname = ''www.instagram.com'', port = [], pathname = ''/p/X/'',
           search = [], hash = []\<rparr> \<and>
   includes_str ''https://www.instagram.com/p/X/?'' ''/?'' \<and>
   cleanInstagramUrl new_URL ''https://www.instagram.com/p/X/?'' =
     Inr \<lparr>cleanUrl = ''https://www.instagram.com/p/X/'',
          removed = ''No tracking parameters found'', wasModified = False\<rparr>"
  by code_simp

text \<open>
  C3, amended. On a string that parses: with no \<^verbatim>\<open>/?\<close> in the raw string the removed
  text is the sentinel and the result is unmodified; with one \<^verbatim>\<open>/?\<close>, the raw string
  being \<open>a @ ''/?'' @ b\<close> with no further \<^verbatim>\<open>/?\<close> in \<open>b\<close>, the removed text is
  \<^verbatim>\<open>/?\<close> followed by \<open>b\<close> when \<open>b\<close> is not empty and the sentinel when it is, and the
  result is modified exactly when \<open>b\<close> is not empty.
\<close>

theorem removed_text:
  assumes "URL s = Some u"
  shows "\<exists>r. cleanInstagramUrl URL s = Inr r \<and>
     (\<not> includes_str s ''/?'' \<longrightarrow> removed r = no_tracking \<and> \<not> wasModified r) \<and>
     (\<forall>a b. s = a @ ''/?'' @ b \<and> \<not> includes_str (a @ ''/'') ''/?'' \<and> \<not> includes_str b ''/?'' \<longrightarrow>
        removed r = (if b = [] then no_tracking else ''/?'' @ b) \<and>
        wasModified r = (b \<noteq> []))"
proof -
  from clean_parsed [of URL s u] assms obtain p where
    r: "cleanInstagramUrl URL s =
           Inr \<lparr>cleanUrl = protocol u @ ''//'' @ hostname u @ hd (split_str (pathname u) ''/?''),
                removed = (if p \<noteq> [] then ''/?'' @ p else no_tracking),
                wasModified = (p \<noteq> [])\<rparr>"
    and p: "p = (if includes_str s ''/?'' then hd (tl (split_str s ''/?'')) else [])"
    by blast
  have "p = b" if "s = a @ ''/?'' @ b" "\<not> includes_str (a @ ''/'') ''/?''" "\<not> includes_str b ''/?''"
    for a b
  proof -
    from that(1,2) have c: "cut ''/?'' s = Some (a, b)" using cut_first [of a b] by simp
    then have "includes_str s ''/?''" by (simp add: includes_str_def)
    moreover from that(3) have "split_str b ''/?'' = [b]"
      by (simp add: split_str_no_occurrence)
    with c have "split_str s ''/?'' = [a, b]"
      by (subst split_str.simps) simp
    ultimately show ?thesis using p by simp
  qed
  with r p show ?thesis by auto
qed

theorem removed_text_witness:
  "(\<exists>r. cleanInstagramUrl new_URL ''https://www.instagram.com/p/ABC123/?utm_source=ig_web_copy_link'' = Inr r \<and>
        removed r = ''/?utm_source=ig_web_copy_link'' \<and> wasModified r) \<and>
   (\<exists>r. cleanInstagramUrl new_URL ''https://instagram.com/p/ABC123'' = Inr r \<and>
        removed r = ''No tracking parameters found'' \<and> \<not> wasModified r)"
proof -
  let ?s = "''https://www.instagram.com/p/ABC123/?utm_source=ig_web_copy_link''"
  let ?t = "''https://instagram.com/p/ABC123''"
  have 1: "new_URL ?s =
     Some \<lparr>protocol = ''https:'', username = [], password = [],
           hostname = ''www.instagram.com'', port = [], pathname = ''/p/ABC123/'',
           search = ''?utm_source=ig_web_copy_link'', hash = []\<rparr>"
    by code_simp
  have 2: "new_URL ?t =
     Some \<lparr>protocol = ''https:'', username = [], password = [],
           hostname = ''instagram.com'', port = [], pathname = ''/p/ABC123'',
           search = [], hash = []\<rparr>"
    by code_simp
  have 3: "?s = ''https://www.instagram.com/p/ABC123'' @ ''/?'' @ ''utm_source=ig_web_copy_link''"
    by simp
  have 4: "\<not> includes_str (''https://www.instagram.com/p/ABC123'' @ ''/'') ''/?''"
     "\<not> includes_str ''utm_source=ig_web_copy_link'' ''/?''"
     "\<not> includes_str ?t ''/?''"
    by code_simp+
  from removed_text [of new_URL ?s, OF 1] obtain r where
    r: "cleanInstagramUrl new_URL ?s = Inr r"
    and "\<forall>a b. ?s = a @ ''/?'' @ b \<and> \<not> includes_str (a @ ''/'') ''/?'' \<and>
             \<not> includes_str b ''/?'' \<longrightarrow>
           removed r = (if b = [] then no_tracking else ''/?'' @ b) \<and>
           wasModified r = (b \<noteq> [])"
    by blast
  from this(2) [rule_format, of "''https://www.instagram.com/p/ABC123''"
      "''utm_source=ig_web_copy_link''", OF conjI [OF 3 conjI [OF 4(1) 4(2)]]]
  have "removed r = ''/?utm_source=ig_web_copy_link'' \<and> wasModified r"
    by simp
  with r have
    "\<exists>r. cleanInstagramUrl new_URL ?s = Inr r \<and>
        removed r = ''/?utm_source=ig_web_copy_link'' \<and> wasModified r"
    by blast
  moreover from removed_text [of new_URL ?t, OF 2] 4 have
    "\<exists>r. cleanInstagramUrl new_URL ?t = Inr r \<and>
        removed r = ''No tracking parameters found'' \<and> \<not> wasModified r"
    by (auto simp: no_tracking_def)
  ultimately show ?thesis by blast
qed

section \<open>Validation\<close>

text \<open>
  C4. \<^verbatim>\<open>isValidInstagramUrl(s)\<close> is true exactly when \<open>s\<close> parses and the lower-cased
  host name of the parse is one of the five allow-listed names; on a string that does
  not parse it is false.
\<close>

theorem isValidInstagramUrl_allow_list:
  "(isValidInstagramUrl URL s \<longleftrightarrow>
      (\<exists>u. URL s = Some u \<and>
           toLowerCase (hostname u) \<in>
             {''instagram.com'', ''www.instagram.com'', ''m.instagram.com'',
              ''instagr.am'', ''www.instagr.am''})) \<and>
   (URL s = None \<longrightarrow> \<not> isValidInstagramUrl URL s)"
  by (auto simp: isValidInstagramUrl_def validDomains_def split: option.splits)

text \<open>
  With the reference parser: a string with no scheme does not parse and is refused, an
  upper-case Instagram host is accepted, another host is refused.
\<close>

theorem isValidInstagramUrl_allow_list_witness:
  "\<not> isValidInstagramUrl new_URL ''instagram.com/p/X'' \<and>
   isValidInstagramUrl new_URL ''https://WWW.INSTAGRAM.COM/p/X/?x=1'' \<and>
   \<not> isValidInstagramUrl new_URL ''https://twitter.com/foo''"
proof -
  have 1: "new_URL ''instagram.com/p/X'' = None"
    by code_simp
  have 2: "new_URL ''https://WWW.INSTAGRAM.COM/p/X/?x=1'' =
      Some \<lparr>protocol = ''https:'', username = [], password = [],
            hostname = ''www.instagram.com'', port = [], pathname = ''/p/X/'',
            search = ''?x=1'', hash = []\<rparr>"
    by code_simp
  have 3: "new_URL ''https://twitter.com/foo'' =
      Some \<lparr>protocol = ''https:'', username = [], password = [],
            hostname = ''twitter.com'', port = [], pathname = ''/foo'',
            search = [], hash = []\<rparr>"
    by code_simp
  have l: "toLowerCase ''www.instagram.com'' = ''www.instagram.com''"
     "toLowerCase ''twitter.com'' = ''twitter.com''"
    by code_simp+
  from 1 isValidInstagramUrl_allow_list [of new_URL "''instagram.com/p/X''"]
  have "\<not> isValidInstagramUrl new_URL ''instagram.com/p/X''" by blast
  moreover
  from 2 l isValidInstagramUrl_allow_list [of new_URL "''https://WWW.INSTAGRAM.COM/p/X/?x=1''"]
  have "isValidInstagramUrl new_URL ''https://WWW.INSTAGRAM.COM/p/X/?x=1''" by simp
  moreover
  from 3 l isValidInstagramUrl_allow_list [of new_URL "''https://twitter.com/foo''"]
  have "\<not> isValidInstagramUrl new_URL ''https://twitter.com/foo''" by simp
  ultimately show ?thesis by blast
qed

section \<open>Cleaning a clean URL\<close>

text \<open>
  C5. Cleaning is idempotent on the URL: for every string that
  \<^verbatim>\<open>isValidInstagramUrl\<close> accepts, cleaning the clean URL again gives the same clean
  URL. This is proved for every constructor and every path percent-encode set \<open>E\<close>
  such that the URLs the constructor returns with an allow-listed host are serialised,
  and their clean forms are parsed by the constructor as by the basic URL parser. A
  clean form is an ASCII string that the parser has nothing to encode in. The basic
  URL parser itself meets both conditions, for every admissible set
  (\<open>parse_URL_conditions\<close>).
\<close>

theorem cleaning_idempotent:
  assumes "agrees_on_clean_urls E URL" and "returns_serialised E URL"
    and "isValidInstagramUrl URL u"
  shows "\<exists>r r'. cleanInstagramUrl URL u = Inr r \<and>
           cleanInstagramUrl URL (cleanUrl r) = Inr r' \<and> cleanUrl r' = cleanUrl r"
proof -
  from assms(3) obtain x where x: "URL u = Some x" "toLowerCase (hostname x) \<in> set validDomains"
    by (auto simp: isValidInstagramUrl_def split: option.splits)
  from valid_host_chars [OF x(2)] have host: "hostname x \<noteq> []" by simp
  from assms(2) x have "serialised E x" by (auto simp: returns_serialised_def)
  with host obtain scheme path where s:
    "protocol x = scheme @ '':''" "scheme_ok scheme"
    "is_special scheme \<longrightarrow> toLowerCase (hostname x) = hostname x"
    "pathname x = serialize_path path" "path_ok E scheme path"
    by (auto simp: serialised_def)
  from s(4,5) have mark: "CHR ''?'' \<notin> set (pathname x)"
    by (simp add: serialised_path_no_mark)
  from clean_serialised [of URL u x, OF x(1) mark] obtain r where
    r: "cleanInstagramUrl URL u = Inr r" "cleanUrl r = clean_form x"
    by (auto simp: clean_form_def)
  from parse_URL_serialised_valid [OF s(2) x(2) s(3) s(5)] s(1,4)
  have "parse_URL E (clean_form x) = Some (make_url scheme [] [] (hostname x) [] (pathname x) [])"
    by (simp add: clean_form_def)
  with assms(1) x obtain y where y: "URL (clean_form x) = Some y" "protocol y = protocol x"
    "hostname y = hostname x" "pathname y = pathname x"
    unfolding agrees_on_clean_urls_def using s(1) by (fastforce simp: make_url_def)
  from y(4) mark have "CHR ''?'' \<notin> set (pathname y)" by simp
  from clean_serialised [of URL "clean_form x" y, OF y(1) this] y(2,3,4) obtain r' where
    "cleanInstagramUrl URL (clean_form x) = Inr r'" "cleanUrl r' = clean_form x"
    by (auto simp: clean_form_def)
  with r show ?thesis by auto
qed

text \<open>
  With the reference parser and the Standard's path percent-encode set, on a URL with
  an upper-case host, a dot segment, a query and a fragment; and with the basic URL
  parser and the older set, on a URL with a \<open>^\<close> in its path.
\<close>

theorem cleaning_idempotent_witness:
  "(\<exists>r r'. cleanInstagramUrl new_URL ''https://WWW.INSTAGRAM.COM/p/../reel/DMaaOuDK_Bk/?igsh=dHFk#top'' = Inr r \<and>
     cleanUrl r = ''https://www.instagram.com/reel/DMaaOuDK_Bk/'' \<and>
     cleanInstagramUrl new_URL (cleanUrl r) = Inr r' \<and> cleanUrl r' = cleanUrl r) \<and>
   (\<exists>r r'. cleanInstagramUrl (parse_URL legacy_path_set) ''https://instagram.com/a^b/?x=1'' = Inr r \<and>
     cleanUrl r = ''https://instagram.com/a^b/'' \<and>
     cleanInstagramUrl (parse_URL legacy_path_set) (cleanUrl r) = Inr r' \<and>
     cleanUrl r' = cleanUrl r)"
proof -
  let ?u = "''https://WWW.INSTAGRAM.COM/p/../reel/DMaaOuDK_Bk/?igsh=dHFk#top''"
  let ?v = "''https://instagram.com/a^b/?x=1''"
  let ?legacy = "parse_URL legacy_path_set"
  have 1: "agrees_on_clean_urls path_set new_URL"
    unfolding new_URL_def by (rule parse_URL_conditions) (rule admissible_path_set)
  have 2: "returns_serialised path_set new_URL"
    unfolding new_URL_def by (rule parse_URL_conditions) (rule admissible_path_set)
  have 3: "isValidInstagramUrl new_URL ?u"
    by code_simp
  have 4: "cleanInstagramUrl new_URL ?u =
      Inr \<lparr>cleanUrl = ''https://www.instagram.com/reel/DMaaOuDK_Bk/'',
           removed = ''/?igsh=dHFk#top'', wasModified = True\<rparr>"
    by code_simp
  note 5 = parse_URL_conditions [OF admissible_legacy_path_set]
  have 6: "isValidInstagramUrl ?legacy ?v"
    by code_simp
  have 7: "cleanInstagramUrl ?legacy ?v =
      Inr \<lparr>cleanUrl = ''https://instagram.com/a^b/'', removed = ''/?x=1'',
           wasModified = True\<rparr>"
    by code_simp
  from cleaning_idempotent [OF 1 2 3] 4
  have "\<exists>r r'. cleanInstagramUrl new_URL ?u = Inr r \<and>
     cleanUrl r = ''https://www.instagram.com/reel/DMaaOuDK_Bk/'' \<and>
     cleanInstagramUrl new_URL (cleanUrl r) = Inr r' \<and> cleanUrl r' = cleanUrl r"
    by auto
  moreover from cleaning_idempotent [OF 5 6] 7
  have "\<exists>r r'. cleanInstagramUrl ?legacy ?v = Inr r \<and>
     cleanUrl r = ''https://instagram.com/a^b/'' \<and>
     cleanInstagramUrl ?legacy (cleanUrl r) = Inr r' \<and> cleanUrl r' = cleanUrl r"
    by auto
  ultimately show ?thesis by blast
qed

section \<open>A query with no \<^verbatim>\<open>/?\<close> before it\<close>

text \<open>
  The query of \<^verbatim>\<open>https://www.instagram.com/p/ABC123?utm_source=ig_web_copy_link\<close> is
  not in the clean URL, though the raw string has no \<^verbatim>\<open>/?\<close>.
\<close>

theorem query_dropped_counterexample:
  "new_URL ''https://www.instagram.com/p/ABC123?utm_source=ig_web_copy_link'' =
     Some \<lparr>protocol = ''https:'', username = [], password = [],
           hostname = ''www.instagram.com'', port = [], pathname = ''/p/ABC123'',
           search = ''?utm_source=ig_web_copy_link'', hash = []\<rparr> \<and>
   \<not> includes_str ''https://www.instagram.com/p/ABC123?utm_source=ig_web_copy_link'' ''/?'' \<and>
   cleanInstagramUrl new_URL ''https://www.instagram.com/p/ABC123?utm_source=ig_web_copy_link'' =
     Inr \<lparr>cleanUrl = ''https://www.instagram.com/p/ABC123'',
          removed = ''No tracking parameters found'', wasModified = False\<rparr> \<and>
   \<not> includes_str ''https://www.instagram.com/p/ABC123'' ''?utm_source=ig_web_copy_link''"
  by code_simp

text \<open>
  C6, amended. On a string that parses with a query, and that has no \<^verbatim>\<open>/?\<close>, the
  query is dropped all the same: the clean URL is the protocol, \<^verbatim>\<open>//\<close>, the host
  name and the path, the query is no part of it, the removed text is the sentinel and
  the result is flagged unmodified. (The protocol, host name and path of a parse hold
  no \<open>?\<close>.)
\<close>

theorem query_without_separator_dropped:
  assumes "URL s = Some u"
    and "search u = CHR ''?'' # q"
    and "\<not> includes_str s ''/?''"
    and "CHR ''?'' \<notin> set (protocol u) \<union> set (hostname u) \<union> set (pathname u)"
  shows "\<exists>r. cleanInstagramUrl URL s = Inr r \<and>
     cleanUrl r = protocol u @ ''//'' @ hostname u @ pathname u \<and>
     \<not> includes_str (cleanUrl r) (search u) \<and>
     removed r = no_tracking \<and> \<not> wasModified r"
proof -
  from assms(4) have "\<not> includes_str (pathname u) ''/?''"
    by (simp add: no_mark_no_separator)
  then have path: "hd (split_str (pathname u) ''/?'') = pathname u"
    by (simp add: split_str_no_occurrence)
  from clean_parsed [of URL s u] assms(1,3) path
  have r: "cleanInstagramUrl URL s =
             Inr \<lparr>cleanUrl = protocol u @ ''//'' @ hostname u @ pathname u,
                  removed = no_tracking, wasModified = False\<rparr>"
    by auto
  from assms(4) have "CHR ''?'' \<notin> set (protocol u @ ''//'' @ hostname u @ pathname u)"
    by simp
  with assms(2) have "\<not> includes_str (protocol u @ ''//'' @ hostname u @ pathname u) (search u)"
    using includes_str_set [of "protocol u @ ''//'' @ hostname u @ pathname u" "search u"]
    by auto
  with r show ?thesis by simp
qed

theorem query_without_separator_dropped_witness:
  "\<exists>r. cleanInstagramUrl new_URL ''https://instagram.com/stories/username/123456789?utm_medium=share_sheet'' = Inr r \<and>
       cleanUrl r = ''https://instagram.com/stories/username/123456789'' \<and>
       \<not> includes_str (cleanUrl r) ''?utm_medium=share_sheet'' \<and>
       removed r = ''No tracking parameters found'' \<and> \<not> wasModified r"
proof -
  let ?s = "''https://instagram.com/stories/username/123456789?utm_medium=share_sheet''"
  let ?u = "\<lparr>protocol = ''https:'', username = [], password = [],
            hostname = ''instagram.com'', port = [],
            pathname = ''/stories/username/123456789'',
            search = ''?utm_medium=share_sheet'', hash = []\<rparr>"
  have 1: "new_URL ?s = Some ?u"
    by code_simp
  have 2: "search ?u = CHR ''?'' # ''utm_medium=share_sheet''"
    by simp
  have 3: "\<not> includes_str ?s ''/?''"
    by code_simp
  note 4 = new_URL_no_mark(1) [OF 1]
  from query_without_separator_dropped [of new_URL ?s ?u, OF 1 2 3 4] show ?thesis
    by (simp add: no_tracking_def)
qed

section \<open>No exception leaves the page\<close>

text \<open>
  C7. On a string that \<^verbatim>\<open>isValidInstagramUrl\<close> accepts, \<^verbatim>\<open>cleanInstagramUrl\<close> returns
  a result; it throws only on a string that does not parse, and then its one error;
  and \<^verbatim>\<open>validateAndCleanUrl\<close> returns on every string, whatever the constructor does.
\<close>

theorem validated_url_cleans_without_error:
  "(isValidInstagramUrl URL s \<longrightarrow> (\<exists>r. cleanInstagramUrl URL s = Inr r)) \<and>
   (\<forall>e. cleanInstagramUrl URL s = Inl e \<longrightarrow> URL s = None \<and> e = failed_to_parse) \<and>
   (\<exists>p'. validateAndCleanUrl URL p s = Inr p')"
proof (intro conjI)
  show "isValidInstagramUrl URL s \<longrightarrow> (\<exists>r. cleanInstagramUrl URL s = Inr r)"
    using valid_cleaned by blast
  show "\<forall>e. cleanInstagramUrl URL s = Inl e \<longrightarrow> URL s = None \<and> e = failed_to_parse"
  proof (cases "URL s")
    case None
    then show ?thesis by (simp add: clean_unparsed)
  next
    case (Some u)
    with clean_parsed [of URL s u] show ?thesis by auto
  qed
  show "\<exists>p'. validateAndCleanUrl URL p s = Inr p'"
    by (simp add: validateAndCleanUrl_def Let_def split: sum.splits)
qed

theorem validated_url_cleans_without_error_witness:
  "isValidInstagramUrl new_URL ''https://instagram.com/p/ABC123'' \<and>
   (\<exists>r. cleanInstagramUrl new_URL ''https://instagram.com/p/ABC123'' = Inr r) \<and>
   cleanInstagramUrl new_URL ''p/ABC123'' = Inl failed_to_parse \<and>
   new_URL ''p/ABC123'' = None"
proof -
  have 1: "isValidInstagramUrl new_URL ''https://instagram.com/p/ABC123''"
    by code_simp
  have 2: "cleanInstagramUrl new_URL ''p/ABC123'' = Inl failed_to_parse"
    by code_simp
  from 1 validated_url_cleans_without_error [of new_URL "''https://instagram.com/p/ABC123''"]
  have "\<exists>r. cleanInstagramUrl new_URL ''https://instagram.com/p/ABC123'' = Inr r"
    by blast
  moreover
  from 2 validated_url_cleans_without_error [of new_URL "''p/ABC123''"]
  have "new_URL ''p/ABC123'' = None" by blast
  ultimately show ?thesis using 1 2 by blast
qed

section \<open>The three outcomes of \<^verbatim>\<open>validateAndCleanUrl\<close>\<close>

text \<open>
  The method receives the value of the field trimmed: \<^verbatim>\<open>handleUrlInput\<close>,
  \<^verbatim>\<open>handlePaste\<close> and the debounced listener all call \<^verbatim>\<open>trim()\<close> first, and the first
  two call the method only when something is left. The trimmed value is empty exactly
  when the value is empty or white space only.
\<close>

lemma trim_empty_iff: "trim v = [] \<longleftrightarrow> list_all is_space v"
proof
  assume "list_all is_space v"
  then show "trim v = []" by (rule all_space_trim)
next
  assume t: "trim v = []"
  show "list_all is_space v"
  proof (rule ccontr)
    assume "\<not> list_all is_space v"
    then have d: "dropWhile is_space v \<noteq> []"
      by (simp add: list_all_iff)
    then have "\<not> is_space (hd (dropWhile is_space v))"
      by (rule hd_dropWhile)
    moreover from d have "hd (dropWhile is_space v) \<in> set (rev (dropWhile is_space v))"
      by simp
    ultimately have "dropWhile is_space (rev (dropWhile is_space v)) \<noteq> []"
      by (metis dropWhile_eq_Nil_conv)
    with t show False by (simp add: trim_def)
  qed
qed

text \<open>
  C8. \<^verbatim>\<open>validateAndCleanUrl\<close> has three outcomes, on the value \<open>v\<close> of the field that
  reaches it trimmed. When \<open>v\<close> is empty or white space only it hides the results and
  shows no error, and so do its callers: \<^verbatim>\<open>handleUrlInput\<close> hides the results,
  \<^verbatim>\<open>handlePaste\<close> leaves the page as it is. When the trimmed value fails
  \<^verbatim>\<open>isValidInstagramUrl\<close> it shows the invalid-domain message and hides the results.
  Otherwise it shows the result of \<^verbatim>\<open>cleanInstagramUrl\<close>.
\<close>

theorem validateAndCleanUrl_outcomes:
  "(list_all is_space v \<longrightarrow>
      validateAndCleanUrl URL p (trim v) = Inr (hideResults (hideAlerts p)) \<and>
      errorAlert_hidden (hideResults (hideAlerts p)) \<and>
      resultsCard_hidden (hideResults (hideAlerts p)) \<and>
      handleUrlInput URL p v = Inr (hideResults p) \<and>
      errorAlert_hidden (hideResults p) = errorAlert_hidden p \<and>
      resultsCard_hidden (hideResults p) \<and>
      handlePaste URL p v = Inr p) \<and>
   (\<not> list_all is_space v \<and> \<not> isValidInstagramUrl URL (trim v) \<longrightarrow>
      validateAndCleanUrl URL p (trim v) =
        Inr (hideResults (showError invalid_domain_message (hideAlerts p))) \<and>
      \<not> errorAlert_hidden (hideResults (showError invalid_domain_message (hideAlerts p))) \<and>
      errorMessage_text (hideResults (showError invalid_domain_message (hideAlerts p))) =
        invalid_domain_message \<and>
      resultsCard_hidden (hideResults (showError invalid_domain_message (hideAlerts p))) \<and>
      handleUrlInput URL p v = validateAndCleanUrl URL p (trim v) \<and>
      handlePaste URL p v = validateAndCleanUrl URL p (trim v)) \<and>
   (\<not> list_all is_space v \<and> isValidInstagramUrl URL (trim v) \<longrightarrow>
      (\<exists>r. cleanInstagramUrl URL (trim v) = Inr r \<and>
           validateAndCleanUrl URL p (trim v) = Inr (showResults r (hideAlerts p)) \<and>
           errorAlert_hidden (showResults r (hideAlerts p)) \<and>
           \<not> resultsCard_hidden (showResults r (hideAlerts p)) \<and>
           cleanedUrlInput_value (showResults r (hideAlerts p)) = cleanUrl r) \<and>
      handleUrlInput URL p v = validateAndCleanUrl URL p (trim v) \<and>
      handlePaste URL p v = validateAndCleanUrl URL p (trim v)) \<and>
   realTimeValidation URL p v = validateAndCleanUrl URL p (trim v)"
proof (intro conjI impI)
  assume a: "\<not> list_all is_space v \<and> isValidInstagramUrl URL (trim v)"
  then have t: "trim v \<noteq> []" by (simp add: trim_empty_iff)
  from a obtain r where "cleanInstagramUrl URL (trim v) = Inr r"
    using valid_cleaned [of URL "trim v"] by blast
  with a t show "\<exists>r. cleanInstagramUrl URL (trim v) = Inr r \<and>
           validateAndCleanUrl URL p (trim v) = Inr (showResults r (hideAlerts p)) \<and>
           errorAlert_hidden (showResults r (hideAlerts p)) \<and>
           \<not> resultsCard_hidden (showResults r (hideAlerts p)) \<and>
           cleanedUrlInput_value (showResults r (hideAlerts p)) = cleanUrl r"
    by (simp add: validateAndCleanUrl_def showResults_def hideAlerts_def Let_def)
qed (simp_all add: validateAndCleanUrl_def handleUrlInput_def handlePaste_def
       realTimeValidation_def trim_empty_iff hideResults_def hideAlerts_def showError_def)

text \<open>
  With the reference parser: a value of spaces around a no-break space, a URL of
  another host and a URL of Instagram, each between spaces.
\<close>

theorem validateAndCleanUrl_outcomes_witness:
  "handleUrlInput new_URL blank_page [CHR '' '', CHR 0xA0, CHR '' ''] = Inr blank_page \<and>
   validateAndCleanUrl new_URL blank_page (trim [CHR '' '', CHR 0xA0, CHR '' '']) = Inr blank_page \<and>
   handleUrlInput new_URL blank_page '' https://twitter.com/foo '' =
     Inr (blank_page\<lparr>errorAlert_hidden := False,
            errorMessage_text := invalid_domain_message\<rparr>) \<and>
   handleUrlInput new_URL blank_page '' https://instagram.com/p/ABC123 '' =
     Inr (blank_page\<lparr>resultsCard_hidden := False,
            cleanedUrlInput_value := ''https://instagram.com/p/ABC123'',
            removedParams_text := ''URL was already clean''\<rparr>)"
proof -
  let ?w = "[CHR '' '', CHR 0xA0, CHR '' '']"
  let ?t = "'' https://twitter.com/foo ''" and ?i = "'' https://instagram.com/p/ABC123 ''"
  have 0: "list_all is_space ?w"
    by code_simp
  have 1: "\<not> list_all is_space ?t \<and> \<not> isValidInstagramUrl new_URL (trim ?t)"
    by code_simp
  have 2: "\<not> list_all is_space ?i \<and> isValidInstagramUrl new_URL (trim ?i)"
    by code_simp
  have 3: "cleanInstagramUrl new_URL (trim ?i) =
      Inr \<lparr>cleanUrl = ''https://instagram.com/p/ABC123'',
           removed = ''No tracking parameters found'', wasModified = False\<rparr>"
    by code_simp
  from 0 validateAndCleanUrl_outcomes [of ?w new_URL blank_page]
  have "handleUrlInput new_URL blank_page ?w = Inr (hideResults blank_page)"
    "validateAndCleanUrl new_URL blank_page (trim ?w) = Inr (hideResults (hideAlerts blank_page))"
    by blast+
  moreover from 1 validateAndCleanUrl_outcomes [of ?t new_URL blank_page]
  have "handleUrlInput new_URL blank_page ?t =
     Inr (hideResults (showError invalid_domain_message (hideAlerts blank_page)))"
    by simp
  moreover from 2 3 validateAndCleanUrl_outcomes [of ?i new_URL blank_page]
  have "handleUrlInput new_URL blank_page ?i =
     Inr (showResults \<lparr>cleanUrl = ''https://instagram.com/p/ABC123'',
           removed = ''No tracking parameters found'', wasModified = False\<rparr> (hideAlerts blank_page))"
    by auto
  ultimately show ?thesis
    by (simp add: hideResults_def hideAlerts_def showError_def showResults_def blank_page_def)
qed

section \<open>The split of the parsed path\<close>

text \<open>
  C9. On a string that parses, the path of the parse holding no \<open>?\<close>, the split at
  \<^verbatim>\<open>/?\<close> changes nothing and the clean URL is the protocol, \<^verbatim>\<open>//\<close>, the host name
  and the path of the parse. A character that is in none of the three, \<open>?\<close> and \<open>#\<close>
  among them, is not in the clean URL; and the user name, password, port, query and
  fragment of the parse have no part in the result. (The reference parser returns no
  path with a \<open>?\<close>: \<open>new_URL_no_mark\<close>.)
\<close>

theorem cleanUrl_is_protocol_host_path:
  assumes "URL s = Some u" and "CHR ''?'' \<notin> set (pathname u)"
  shows "\<exists>r. cleanInstagramUrl URL s = Inr r \<and>
     cleanUrl r = protocol u @ ''//'' @ hostname u @ pathname u \<and>
     (\<forall>c. c \<notin> set (protocol u) \<union> set (hostname u) \<union> set (pathname u) \<and> c \<noteq> CHR ''/'' \<longrightarrow>
           c \<notin> set (cleanUrl r)) \<and>
     (\<forall>un pw pt q f.
         cleanInstagramUrl
           (URL(s := Some (u\<lparr>username := un, password := pw, port := pt,
                              search := q, hash := f\<rparr>))) s = Inr r)"
proof -
  from assms(2) have "\<not> includes_str (pathname u) ''/?''"
    by (simp add: no_mark_no_separator)
  then have path: "hd (split_str (pathname u) ''/?'') = pathname u"
    by (simp add: split_str_no_occurrence)
  from clean_parsed [of URL s u] assms(1) obtain p where
    "cleanInstagramUrl URL s =
           Inr \<lparr>cleanUrl = protocol u @ ''//'' @ hostname u @ hd (split_str (pathname u) ''/?''),
                removed = (if p \<noteq> [] then ''/?'' @ p else no_tracking),
                wasModified = (p \<noteq> [])\<rparr>"
    by blast
  then have r: "cleanInstagramUrl URL s =
           Inr \<lparr>cleanUrl = protocol u @ ''//'' @ hostname u @ pathname u,
                removed = (if p \<noteq> [] then ''/?'' @ p else no_tracking),
                wasModified = (p \<noteq> [])\<rparr>"
    by (simp only: path)
  have frame: "cleanInstagramUrl
           (URL(s := Some (u\<lparr>username := un, password := pw, port := pt,
                              search := q, hash := f\<rparr>))) s = Inr r'"
    if "cleanInstagramUrl URL s = Inr r'" for un pw pt q f r'
    using that assms(1)
      clean_frame [of URL s u "URL(s := Some (u\<lparr>username := un, password := pw, port := pt,
                              search := q, hash := f\<rparr>))"
        "u\<lparr>username := un, password := pw, port := pt, search := q, hash := f\<rparr>"]
    by simp
  have "c \<notin> set (protocol u @ ''//'' @ hostname u @ pathname u)"
    if "c \<notin> set (protocol u) \<union> set (hostname u) \<union> set (pathname u) \<and> c \<noteq> CHR ''/''" for c
    using that by simp
  with r frame show ?thesis by simp
qed

theorem cleanUrl_is_protocol_host_path_witness:
  "\<exists>r. cleanInstagramUrl new_URL ''https://user:pw@www.instagram.com:8443/p/ABC123/?a=1#top'' = Inr r \<and>
       cleanUrl r = ''https://www.instagram.com/p/ABC123/'' \<and>
       CHR ''?'' \<notin> set (cleanUrl r) \<and> CHR ''#'' \<notin> set (cleanUrl r)"
proof -
  let ?s = "''https://user:pw@www.instagram.com:8443/p/ABC123/?a=1#top''"
  let ?u = "\<lparr>protocol = ''https:'', username = ''user'', password = ''pw'',
            hostname = ''www.instagram.com'', port = ''8443'',
            pathname = ''/p/ABC123/'', search = ''?a=1'', hash = ''#top''\<rparr>"
  have 1: "new_URL ?s = Some ?u"
    by code_simp
  from new_URL_no_mark(1) [OF 1] have 2: "CHR ''?'' \<notin> set (pathname ?u)"
    by simp
  from cleanUrl_is_protocol_host_path [of new_URL ?s ?u, OF 1 2] obtain r where
    r: "cleanInstagramUrl new_URL ?s = Inr r"
      "cleanUrl r = protocol ?u @ ''//'' @ hostname ?u @ pathname ?u"
    by blast
  then show ?thesis by simp
qed

section \<open>The modification flag\<close>

text \<open>
  C10. The flag does not tell whether the URL changed: there is a string that parses,
  whose result is flagged unmodified and whose clean URL is another string. Here it is
  one with a conventional query and no \<^verbatim>\<open>/?\<close>.
\<close>

theorem wasModified_misses_a_change:
  "\<exists>s r. cleanInstagramUrl new_URL s = Inr r \<and> \<not> wasModified r \<and> cleanUrl r \<noteq> s"
proof -
  have "cleanInstagramUrl new_URL ''https://www.instagram.com/p/ABC123?utm_source=ig_web_copy_link'' =
          Inr \<lparr>cleanUrl = ''https://www.instagram.com/p/ABC123'',
               removed = ''No tracking parameters found'', wasModified = False\<rparr>"
    by code_simp
  then show ?thesis by force
qed

end
